theory Spec2Isabelle
  imports Main
begin

section \<open>The FastWorkflow agent adapter of tau2-bench\<close>

text \<open>
  A shallow embedding of \<^verbatim>\<open>src/tau2/agent/fastworkflow_adapter.py\<close>, class
  \<^verbatim>\<open>FastWorkflowAgentAdapter\<close>. The adapter object (\<^verbatim>\<open>self\<close>) and the outside
  world it talks to (the fastworkflow library, its queues, the clock) are one record
  \<open>world\<close> that every method takes and returns. A method that can raise returns
  \<open>Inl e\<close> for the exception and \<open>Inr x\<close> for a normal return, next to the world as it
  is at that moment. Method names lose their leading underscore, which an Isabelle name
  cannot carry.
\<close>

subsection \<open>Python values\<close>

text \<open>
  An exception is an instance of Python's \<^verbatim>\<open>Exception\<close>, the class that every handler
  of the adapter names; \<open>exn_text e\<close> is \<^verbatim>\<open>str(e)\<close>. \<^verbatim>\<open>queue.Empty\<close> is not among
  them: it is the empty queue (the empty list) below.
\<close>

datatype exn = Exception (exn_text: string)

text \<open>What \<^verbatim>\<open>getattr(obj, name, None)\<close> can give, as far as the adapter tells values apart.\<close>

datatype pyobj = PyNone | PyStr string | PyOther

datatype direction = AGENT_TO_WORKFLOW | WORKFLOW_TO_AGENT

type_synonym kwargs = "(string \<times> string) list"

text \<open>
  The \<^verbatim>\<open>parameters\<close> of a trace event: \<^verbatim>\<open>None\<close>, a dict, an object that one of
  \<^verbatim>\<open>model_dump()\<close>, \<^verbatim>\<open>dict()\<close> or \<^verbatim>\<open>dict(params)\<close> turns into a dict, or an object
  on which all three raise.
\<close>

datatype params = ParamsNone | ParamsDict kwargs | ParamsModel kwargs | ParamsOpaque

text \<open>
  An event of the command trace queue, read with \<^verbatim>\<open>getattr\<close> and a default: a field is
  \<open>None\<close> (or \<open>PyNone\<close>) when the object has no such attribute.
\<close>

record CommandTraceEvent =
  direction :: "direction option"
  command_name :: pyobj
  parameters :: params
  response_text :: pyobj
  success :: "bool option"

text \<open>The tuple \<^verbatim>\<open>(command_name, parameters, response_text, success)\<close>.\<close>

type_synonym command = "string \<times> kwargs \<times> pyobj \<times> bool"

text \<open>
  An item of the command output queue: an object with a list \<^verbatim>\<open>command_responses\<close>
  (given by the \<^verbatim>\<open>response\<close> attribute of each entry), a plain string, or anything else.
\<close>

datatype CommandOutput =
  CommandOutput (command_responses: "pyobj list")
  | StrOutput string
  | OtherOutput

subsection \<open>Messages of the evaluator\<close>

text \<open>
  The message classes come from \<^verbatim>\<open>tau2.data_model.message\<close>; the adapter reads
  \<^verbatim>\<open>content\<close> of a user message and builds the other two.
\<close>

record ToolCall =
  id' :: string
  name :: string
  arguments :: kwargs
  requestor :: string

record AssistantMessage =
  role :: string
  content :: "string option"
  tool_calls :: "ToolCall list option"
  cost :: int

datatype UserMessage = UserMessage (user_content: "string option")

datatype ToolMessage = ToolMessage (tool_content: "string option")

datatype ValidAgentInputMessage =
  User UserMessage
  | Tool ToolMessage
  | MultiTool (tool_messages: "ToolMessage list")

datatype Message =
  UserMsg UserMessage
  | ToolMsg ToolMessage
  | AssistantMsg AssistantMessage

text \<open>The state dict that the caller threads through the calls.\<close>

record BridgeState =
  message_history :: "Message list"
  awaiting_response :: bool
  last_tool_calls :: "ToolCall list"

subsection \<open>The adapter and the world around it\<close>

record ChatSession =
  command_trace_queue :: "CommandTraceEvent list"
  command_output_queue :: "CommandOutput list"
  user_message_queue :: "string option list"

text \<open>
  The imported \<^verbatim>\<open>fastworkflow\<close> module, as far as the adapter inspects it:
  \<^verbatim>\<open>hasattr(self.fastworkflow, "CommandTraceEventDirection")\<close>.
\<close>

record fw_module =
  has_CommandTraceEventDirection :: bool

text \<open>The calls into the fastworkflow library, the environment files and the input sink.\<close>

datatype call =
  LoadEnv string
  | ImportFastworkflow
  | FwInit
  | ClearWorkflowStack
  | NewChatSession
  | StartWorkflow string
  | Put "string option"

text \<open>
  The first three fields are the adapter's own (\<^verbatim>\<open>self.is_initialized\<close>,
  \<^verbatim>\<open>self.chat_session\<close>, \<^verbatim>\<open>self.fastworkflow\<close>). The others are the environment:
  \<^item> \<open>installed\<close>: the module that \<^verbatim>\<open>import fastworkflow\<close> yields;
  \<^item> \<open>faults\<close>: for the outside calls and queue reads still to come, in order, whether
    each raises (once the list is used up none raises);
  \<^item> \<open>trace_feed\<close>, \<open>output_feed\<close>: what the runner, which works concurrently, has put
    into each queue between one drain of that queue and the next (once a list is used
    up the runner stays silent);
  \<^item> \<open>calls\<close>: the outside calls made so far, the most recent first;
  \<^item> \<open>clock\<close>: the number of \<^verbatim>\<open>time.sleep(0.15)\<close> intervals slept so far.
\<close>

record world =
  is_initialized :: bool
  chat_session :: "ChatSession option"
  fastworkflow :: "fw_module option"
  installed :: fw_module
  faults :: "exn option list"
  trace_feed :: "CommandTraceEvent list list"
  output_feed :: "CommandOutput list list"
  calls :: "call list"
  clock :: nat

type_synonym 'a action = "world \<Rightarrow> (exn + 'a) \<times> world"

definition return :: "'a \<Rightarrow> 'a action" where
  "return x w = (Inr x, w)"

definition raise :: "exn \<Rightarrow> 'a action" where
  "raise e w = (Inl e, w)"

text \<open>Sequencing: the second statement runs only when the first did not raise.\<close>

definition seq :: "'a action \<Rightarrow> ('a \<Rightarrow> 'b action) \<Rightarrow> 'b action" where
  "seq m f w = (case m w of (Inl e, w') \<Rightarrow> (Inl e, w') | (Inr x, w') \<Rightarrow> f x w')"

text \<open>\<^verbatim>\<open>with contextlib.suppress(Exception): ...\<close>: the effects up to the raise stay.\<close>

definition suppress :: "unit action \<Rightarrow> unit action" where
  "suppress m w = (case m w of (Inl e, w') \<Rightarrow> (Inr (), w') | (Inr x, w') \<Rightarrow> (Inr (), w'))"

definition modify :: "(world \<Rightarrow> world) \<Rightarrow> unit action" where
  "modify f w = (Inr (), f w)"

text \<open>A point where the environment may raise.\<close>

definition fault_point :: "unit action" where
  "fault_point w =
    (case faults w of
       [] \<Rightarrow> (Inr (), w)
     | None # fs \<Rightarrow> (Inr (), w\<lparr>faults := fs\<rparr>)
     | Some e # fs \<Rightarrow> (Inl e, w\<lparr>faults := fs\<rparr>))"

text \<open>An outside call: it is recorded, and it raises when the environment says so.\<close>

definition ext_call :: "call \<Rightarrow> unit action" where
  "ext_call c = seq (modify (\<lambda>w. w\<lparr>calls := c # calls w\<rparr>)) (\<lambda>_. fault_point)"

definition time_sleep :: "world \<Rightarrow> world" where
  "time_sleep w = w\<lparr>clock := clock w + 1\<rparr>"

subsection \<open>Strings\<close>

text \<open>
  Text is a list of code points below 256. \<^verbatim>\<open>str.strip()\<close> removes the characters for
  which \<^verbatim>\<open>str.isspace\<close> holds; below 256 these are the twelve listed here.
\<close>

definition isspace :: "char \<Rightarrow> bool" where
  "isspace c = (c \<in> set [CHR 0x09, CHR 0x0A, CHR 0x0B, CHR 0x0C, CHR 0x0D,
                          CHR 0x1C, CHR 0x1D, CHR 0x1E, CHR 0x1F, CHR 0x20,
                          CHR 0x85, CHR 0xA0])"

definition strip :: "string \<Rightarrow> string" where
  "strip s = rev (dropWhile isspace (rev (dropWhile isspace s)))"

text \<open>\<^verbatim>\<open>sep.join(xs)\<close>.\<close>

fun join :: "string \<Rightarrow> string list \<Rightarrow> string" where
  "join sep [] = []"
| "join sep [x] = x"
| "join sep (x # y # ys) = x @ sep @ join sep (y # ys)"

text \<open>The decimal digits of a natural number, as an f-string prints it.\<close>

definition digit_char :: "nat \<Rightarrow> char" where
  "digit_char d = ''0123456789'' ! d"

fun str_of_nat :: "nat \<Rightarrow> string" where
  "str_of_nat n =
    (if n < 10 then [digit_char n]
     else str_of_nat (n div 10) @ [digit_char (n mod 10)])"

declare str_of_nat.simps [simp del]

subsection \<open>\<^verbatim>\<open>_initialize_fastworkflow\<close> (lines 103-146)\<close>

definition empty_session :: ChatSession where
  "empty_session =
    \<lparr>command_trace_queue = [], command_output_queue = [], user_message_queue = []\<rparr>"

text \<open>
  The \<^verbatim>\<open>except Exception as e: logger.error(...); raise\<close> around the body passes every
  exception on unchanged, which is what \<open>seq\<close> does.
\<close>

definition initialize_fastworkflow :: "string option \<Rightarrow> unit action" where
  "initialize_fastworkflow initial_message w =
    (if is_initialized w then (Inr (), w)
     else
       seq (ext_call (LoadEnv ''examples/fastworkflow.env'')) (\<lambda>_.
       seq (ext_call (LoadEnv ''examples/fastworkflow.passwords.env'')) (\<lambda>_.
       seq (ext_call ImportFastworkflow) (\<lambda>_.
       seq (modify (\<lambda>w. w\<lparr>fastworkflow := Some (installed w)\<rparr>)) (\<lambda>_.
       seq (ext_call FwInit) (\<lambda>_.
       seq (suppress (ext_call ClearWorkflowStack)) (\<lambda>_.
       seq (ext_call NewChatSession) (\<lambda>_.
       seq (modify (\<lambda>w. w\<lparr>chat_session := Some empty_session\<rparr>)) (\<lambda>_.
       seq (case initial_message of
              None \<Rightarrow> return ()
            | Some t \<Rightarrow> if t \<noteq> [] then ext_call (StartWorkflow t) else return ()) (\<lambda>_.
       modify (\<lambda>w. w\<lparr>is_initialized := True\<rparr>)))))))))) w)"

subsection \<open>\<^verbatim>\<open>_to_plain_kwargs\<close> (lines 148-162)\<close>

fun to_plain_kwargs :: "params \<Rightarrow> kwargs" where
  "to_plain_kwargs ParamsNone = []"
| "to_plain_kwargs (ParamsDict d) = d"
| "to_plain_kwargs (ParamsModel d) = d"
| "to_plain_kwargs ParamsOpaque = []"

subsection \<open>\<^verbatim>\<open>_drain_command_trace\<close> (lines 164-205)\<close>

definition is_agent_to_workflow :: "fw_module option \<Rightarrow> CommandTraceEvent \<Rightarrow> bool" where
  "is_agent_to_workflow fw evt =
    (case fw of
       None \<Rightarrow> False
     | Some m \<Rightarrow>
         if has_CommandTraceEventDirection m then direction evt = Some AGENT_TO_WORKFLOW
         else False)"

text \<open>\<^verbatim>\<open>isinstance(cmd_name, str) and len(cmd_name) > 0\<close>.\<close>

fun nonempty_str :: "pyobj \<Rightarrow> bool" where
  "nonempty_str (PyStr s) = (0 < length s)"
| "nonempty_str PyNone = False"
| "nonempty_str PyOther = False"

fun the_str :: "pyobj \<Rightarrow> string" where
  "the_str (PyStr s) = s"
| "the_str PyNone = []"
| "the_str PyOther = []"

definition command_of :: "CommandTraceEvent \<Rightarrow> command" where
  "command_of evt =
    (the_str (command_name evt), to_plain_kwargs (parameters evt), response_text evt,
     (case success evt of None \<Rightarrow> True | Some b \<Rightarrow> b))"

text \<open>
  The \<^verbatim>\<open>while processed < max_drain\<close> loop over the queue. Every pass reads the queue
  with \<^verbatim>\<open>get_nowait\<close>, a point where the environment may raise; on the empty queue the
  read gives \<^verbatim>\<open>queue.Empty\<close> and the loop ends. The result is \<^verbatim>\<open>executed_commands\<close>
  or the exception, what is left in the queue, and the world.
\<close>

fun trace_loop ::
  "fw_module option \<Rightarrow> nat \<Rightarrow> nat \<Rightarrow> CommandTraceEvent list \<Rightarrow> command list \<Rightarrow> world
    \<Rightarrow> (exn + command list) \<times> CommandTraceEvent list \<times> world" where
  "trace_loop fw max_drain processed [] executed_commands w =
    (if processed < max_drain then
       (case fault_point w of
          (Inl e, w1) \<Rightarrow> (Inl e, [], w1)
        | (Inr u, w1) \<Rightarrow> (Inr executed_commands, [], w1))
     else (Inr executed_commands, [], w))"
| "trace_loop fw max_drain processed (evt # q) executed_commands w =
    (if processed < max_drain then
       (case fault_point w of
          (Inl e, w1) \<Rightarrow> (Inl e, evt # q, w1)
        | (Inr u, w1) \<Rightarrow>
            trace_loop fw max_drain (processed + 1) q
              (if \<not> is_agent_to_workflow fw evt then
                 (if nonempty_str (command_name evt) then executed_commands @ [command_of evt]
                  else executed_commands)
               else executed_commands) w1)
     else (Inr executed_commands, evt # q, w))"

text \<open>
  One drain. The runner's new events are in the queue by the time it is read. When a
  read raises, the events read before it are gone from the queue and from the result.
\<close>

definition drain_command_trace :: "nat \<Rightarrow> command list action" where
  "drain_command_trace max_drain w =
    (case chat_session w of
       None \<Rightarrow> (Inr [], w)
     | Some s \<Rightarrow>
         if \<not> is_initialized w then (Inr [], w)
         else
           (let arrived = (case trace_feed w of [] \<Rightarrow> [] | a # _ \<Rightarrow> a);
                r = trace_loop (fastworkflow w) max_drain 0
                      (command_trace_queue s @ arrived) [] w
            in (fst r,
                (snd (snd r))\<lparr>chat_session := Some (s\<lparr>command_trace_queue := fst (snd r)\<rparr>),
                               trace_feed := tl (trace_feed w)\<rparr>)))"

subsection \<open>\<^verbatim>\<open>_drain_agent_outputs\<close> (lines 207-244)\<close>

text \<open>The texts of one queue item.\<close>

fun response_texts :: "pyobj list \<Rightarrow> string list" where
  "response_texts [] = []"
| "response_texts (PyStr txt # crs) =
    (if strip txt \<noteq> [] then strip txt # response_texts crs else response_texts crs)"
| "response_texts (PyNone # crs) = response_texts crs"
| "response_texts (PyOther # crs) = response_texts crs"

fun texts_of :: "CommandOutput \<Rightarrow> string list" where
  "texts_of (CommandOutput crs) = response_texts crs"
| "texts_of (StrOutput out) = (if strip out \<noteq> [] then [strip out] else [])"
| "texts_of OtherOutput = []"

fun output_loop ::
  "nat \<Rightarrow> nat \<Rightarrow> CommandOutput list \<Rightarrow> string list \<Rightarrow> world
    \<Rightarrow> (exn + string list) \<times> CommandOutput list \<times> world" where
  "output_loop max_drain processed [] agent_texts w =
    (if processed < max_drain then
       (case fault_point w of
          (Inl e, w1) \<Rightarrow> (Inl e, [], w1)
        | (Inr u, w1) \<Rightarrow> (Inr agent_texts, [], w1))
     else (Inr agent_texts, [], w))"
| "output_loop max_drain processed (out # q) agent_texts w =
    (if processed < max_drain then
       (case fault_point w of
          (Inl e, w1) \<Rightarrow> (Inl e, out # q, w1)
        | (Inr u, w1) \<Rightarrow>
            output_loop max_drain (processed + 1) q
              (if texts_of out \<noteq> [] then agent_texts @ [join [CHR 0x0A] (texts_of out)]
               else agent_texts) w1)
     else (Inr agent_texts, out # q, w))"

definition drain_agent_outputs :: "nat \<Rightarrow> string list action" where
  "drain_agent_outputs max_drain w =
    (case chat_session w of
       None \<Rightarrow> (Inr [], w)
     | Some s \<Rightarrow>
         if \<not> is_initialized w then (Inr [], w)
         else
           (let arrived = (case output_feed w of [] \<Rightarrow> [] | a # _ \<Rightarrow> a);
                r = output_loop max_drain 0 (command_output_queue s @ arrived) [] w
            in (fst r,
                (snd (snd r))\<lparr>chat_session := Some (s\<lparr>command_output_queue := fst (snd r)\<rparr>),
                               output_feed := tl (output_feed w)\<rparr>)))"

subsection \<open>\<^verbatim>\<open>_push_user_message\<close> (lines 246-250)\<close>

text \<open>
  After the \<^verbatim>\<open>put\<close>, the debug line slices \<^verbatim>\<open>user_text[:100]\<close>, which raises a
  \<^verbatim>\<open>TypeError\<close> when the text is \<^verbatim>\<open>None\<close>.
\<close>

definition not_subscriptable :: exn where
  "not_subscriptable =
    Exception ([CHR 0x27] @ ''NoneType'' @ [CHR 0x27] @ '' object is not subscriptable'')"

definition push_user_message :: "string option \<Rightarrow> unit action" where
  "push_user_message user_text w =
    (case chat_session w of
       None \<Rightarrow> (Inr (), w)
     | Some s \<Rightarrow>
         if \<not> is_initialized w then (Inr (), w)
         else
           seq (ext_call (Put user_text)) (\<lambda>_.
           seq (modify (\<lambda>w1. w1\<lparr>chat_session :=
                  Some (s\<lparr>user_message_queue := user_message_queue s @ [user_text]\<rparr>)\<rparr>)) (\<lambda>_.
           case user_text of None \<Rightarrow> raise not_subscriptable | Some t \<Rightarrow> return ())) w)"

subsection \<open>\<^verbatim>\<open>_convert_commands_to_tool_calls\<close> (lines 252-266)\<close>

text \<open>The \<^verbatim>\<open>for\<close> loop, with \<^verbatim>\<open>tool_calls\<close> as its accumulator (primed where the
  name is a field's).\<close>

fun convert_loop :: "command list \<Rightarrow> ToolCall list \<Rightarrow> ToolCall list" where
  "convert_loop [] tool_calls' = tool_calls'"
| "convert_loop ((cmd_name, params, response_text', success') # commands) tool_calls' =
    convert_loop commands
      (tool_calls' @
        [\<lparr>id' = ''call_'' @ str_of_nat (length tool_calls'), name = cmd_name,
          arguments = params, requestor = ''assistant''\<rparr>])"

definition convert_commands_to_tool_calls :: "command list \<Rightarrow> ToolCall list" where
  "convert_commands_to_tool_calls commands = convert_loop commands []"

subsection \<open>\<^verbatim>\<open>generate_next_message\<close> (lines 268-409)\<close>

definition fresh_state :: BridgeState where
  "fresh_state = \<lparr>message_history = [], awaiting_response = False, last_tool_calls = []\<rparr>"

definition append_history :: "Message list \<Rightarrow> BridgeState \<Rightarrow> BridgeState" where
  "append_history ms state = state\<lparr>message_history := message_history state @ ms\<rparr>"

text \<open>Lines 298-324: the inbound message is handed on and appended to the history.\<close>

definition handle_message :: "ValidAgentInputMessage \<Rightarrow> BridgeState \<Rightarrow> BridgeState action" where
  "handle_message message state w =
    (case message of
       User um \<Rightarrow>
         if \<not> is_initialized w then
           seq (initialize_fastworkflow (user_content um)) (\<lambda>_.
             return (append_history [UserMsg um] state)) w
         else
           seq (push_user_message (user_content um)) (\<lambda>_.
             return (append_history [UserMsg um] state)) w
     | Tool tm \<Rightarrow> return (append_history [ToolMsg tm] state) w
     | MultiTool tms \<Rightarrow> return (append_history (map ToolMsg tms) state) w)"

text \<open>
  The variables of the interaction loop (lines 327-332). \<open>iteration\<close> is the number of
  iterations begun, one more than the loop variable of \<^verbatim>\<open>for _ in range(max_num_steps)\<close>.
\<close>

record loop_vars =
  idle_cycles :: nat
  steps_taken :: nat
  all_commands :: "command list"
  all_texts :: "string list"
  iteration :: nat

definition max_num_steps :: nat where
  "max_num_steps = 5000"

definition idle_limit :: nat where
  "idle_limit = 150"

definition loop_init :: loop_vars where
  "loop_init =
    \<lparr>idle_cycles = 0, steps_taken = 0, all_commands = [], all_texts = [], iteration = 0\<rparr>"

text \<open>Lines 336-348: the two drains of one iteration and the counters.\<close>

definition account :: "loop_vars \<Rightarrow> command list \<Rightarrow> string list \<Rightarrow> loop_vars" where
  "account lv commands texts =
    (if commands \<noteq> [] \<or> texts \<noteq> [] then
       lv\<lparr>all_commands := all_commands lv @ commands, all_texts := all_texts lv @ texts,
          idle_cycles := 0, steps_taken := steps_taken lv + 1, iteration := iteration lv + 1\<rparr>
     else
       lv\<lparr>idle_cycles := idle_cycles lv + 1, iteration := iteration lv + 1\<rparr>)"

definition poll_once :: "loop_vars \<Rightarrow> loop_vars action" where
  "poll_once lv =
    seq (drain_command_trace 200) (\<lambda>commands.
    seq (drain_agent_outputs 200) (\<lambda>texts.
    return (account lv commands texts)))"

text \<open>
  Lines 335-354: \<^verbatim>\<open>for _ in range(max_num_steps)\<close>, the first argument being the
  iterations that the range still holds; \<^verbatim>\<open>break\<close> when idle too long, else sleep.
\<close>

fun interaction_loop :: "nat \<Rightarrow> loop_vars \<Rightarrow> loop_vars action" where
  "interaction_loop 0 lv w = (Inr lv, w)"
| "interaction_loop (Suc n) lv w =
    (case poll_once lv w of
       (Inl e, w') \<Rightarrow> (Inl e, w')
     | (Inr lv', w') \<Rightarrow>
         if idle_limit \<le> idle_cycles lv' then (Inr lv', w')
         else interaction_loop n lv' (time_sleep w'))"

definition apology :: string where
  "apology = ''I apologize, but I am unable to assist with this request at this time.''"

text \<open>Lines 356-397: the one outbound message, and the state with it appended.\<close>

definition determine_response ::
  "loop_vars \<Rightarrow> BridgeState \<Rightarrow> AssistantMessage \<times> BridgeState" where
  "determine_response lv state =
    (let response_content =
           (if all_texts lv \<noteq> [] then Some (last (all_texts lv)) else None);
         response_tool_calls =
           (if all_commands lv \<noteq> [] then Some (convert_commands_to_tool_calls (all_commands lv))
            else None);
         state1 =
           (if all_commands lv \<noteq> []
            then state\<lparr>last_tool_calls := convert_commands_to_tool_calls (all_commands lv)\<rparr>
            else state);
         assistant_msg =
           (if response_tool_calls \<noteq> None \<and> response_tool_calls \<noteq> Some [] then
              \<lparr>role = ''assistant'', content = None, tool_calls = response_tool_calls, cost = 0\<rparr>
            else if response_content \<noteq> None \<and> response_content \<noteq> Some [] then
              \<lparr>role = ''assistant'', content = response_content, tool_calls = None, cost = 0\<rparr>
            else
              \<lparr>role = ''assistant'', content = Some apology, tool_calls = None, cost = 0\<rparr>)
     in (assistant_msg, append_history [AssistantMsg assistant_msg] state1))"

text \<open>
  The body of the \<^verbatim>\<open>try\<close> (lines 290-397). When it raises, the result carries the
  exception and the value that the local variable \<^verbatim>\<open>state\<close> holds at that moment.
\<close>

definition generate_next_message_try ::
  "ValidAgentInputMessage \<Rightarrow> BridgeState option \<Rightarrow> world
    \<Rightarrow> ((exn \<times> BridgeState option) + (AssistantMessage \<times> BridgeState option)) \<times> world" where
  "generate_next_message_try message state w =
    (let state1 = (case state of None \<Rightarrow> fresh_state | Some s \<Rightarrow> s) in
     case handle_message message state1 w of
       (Inl e, w1) \<Rightarrow> (Inl (e, Some state1), w1)
     | (Inr state2, w1) \<Rightarrow>
         (case interaction_loop max_num_steps loop_init w1 of
            (Inl e, w2) \<Rightarrow> (Inl (e, Some state2), w2)
          | (Inr lv, w2) \<Rightarrow>
              (Inr (fst (determine_response lv state2), Some (snd (determine_response lv state2))),
               w2)))"

definition error_message :: "exn \<Rightarrow> AssistantMessage" where
  "error_message e =
    \<lparr>role = ''assistant'', content = Some (''I encountered an error: '' @ exn_text e),
     tool_calls = None, cost = 0\<rparr>"

text \<open>The whole method: the \<^verbatim>\<open>except Exception\<close> clause (lines 399-409) on top.\<close>

definition generate_next_message ::
  "ValidAgentInputMessage \<Rightarrow> BridgeState option \<Rightarrow> world
    \<Rightarrow> (exn + (AssistantMessage \<times> BridgeState option)) \<times> world" where
  "generate_next_message message state w =
    (case generate_next_message_try message state w of
       (Inl (e, state'), w') \<Rightarrow> (Inr (error_message e, state'), w')
     | (Inr r, w') \<Rightarrow> (Inr r, w'))"

subsection \<open>\<^verbatim>\<open>reset\<close>, \<^verbatim>\<open>stop\<close>, \<^verbatim>\<open>get_init_state\<close> (lines 411-461)\<close>

definition reset :: "unit action" where
  "reset =
    seq (\<lambda>w.
      case chat_session w of
        None \<Rightarrow> (Inr (), w)
      | Some s \<Rightarrow>
          if \<not> is_initialized w then (Inr (), w)
          else
            suppress
              (seq (\<lambda>w1. if fastworkflow w1 \<noteq> None then ext_call ClearWorkflowStack w1
                          else (Inr (), w1)) (\<lambda>_.
               modify (\<lambda>w1. w1\<lparr>chat_session := None\<rparr>))) w) (\<lambda>_.
    modify (\<lambda>w. w\<lparr>is_initialized := False\<rparr>))"

text \<open>
  \<^verbatim>\<open>stop(message, state)\<close> only calls \<^verbatim>\<open>reset\<close>; the state that the caller passed is
  returned next to the result, as the caller still holds it.
\<close>

definition stop ::
  "ValidAgentInputMessage option \<Rightarrow> BridgeState option \<Rightarrow> world
    \<Rightarrow> ((exn + unit) \<times> BridgeState option) \<times> world" where
  "stop message state w = ((fst (reset w), state), snd (reset w))"

definition get_init_state :: "Message list option \<Rightarrow> BridgeState" where
  "get_init_state message_history' =
    \<lparr>message_history = (case message_history' of None \<Rightarrow> [] | Some h \<Rightarrow> h),
     awaiting_response = False, last_tool_calls = []\<rparr>"

text \<open>The adapter right after \<^verbatim>\<open>__init__\<close> (lines 81-84), in a given environment.\<close>

definition new_adapter ::
  "fw_module \<Rightarrow> exn option list \<Rightarrow> CommandTraceEvent list list \<Rightarrow> CommandOutput list list
    \<Rightarrow> world" where
  "new_adapter m fs tf outf =
    \<lparr>is_initialized = False, chat_session = None, fastworkflow = None, installed = m,
     faults = fs, trace_feed = tf, output_feed = outf, calls = [], clock = 0\<rparr>"

section \<open>Notions used in the statements\<close>

text \<open>The tool call built from the command at position \<open>i\<close> of a batch.\<close>

definition tool_call_at :: "nat \<Rightarrow> command \<Rightarrow> ToolCall" where
  "tool_call_at i c =
    \<lparr>id' = ''call_'' @ str_of_nat i, name = fst c, arguments = fst (snd c),
     requestor = ''assistant''\<rparr>"

text \<open>The test that lines 189-202 apply to a drained event.\<close>

definition accepts :: "fw_module option \<Rightarrow> CommandTraceEvent \<Rightarrow> bool" where
  "accepts fw evt = (\<not> is_agent_to_workflow fw evt \<and> nonempty_str (command_name evt))"

text \<open>The text that one item of the output queue contributes (line 242).\<close>

definition utterance :: "CommandOutput \<Rightarrow> string" where
  "utterance out = join [CHR 0x0A] (texts_of out)"

text \<open>A runner that has nothing queued and stays silent, in an environment that raises no more.\<close>

definition quiet :: "world \<Rightarrow> bool" where
  "quiet w =
    (faults w = [] \<and> trace_feed w = [] \<and> output_feed w = [] \<and>
     (case chat_session w of
        None \<Rightarrow> True
      | Some s \<Rightarrow> command_trace_queue s = [] \<and> command_output_queue s = []))"

text \<open>What a drain of the command trace queue finds in it: what was left there and what the
  runner has added since the last drain.\<close>

definition pending_events :: "world \<Rightarrow> CommandTraceEvent list" where
  "pending_events w =
    (case chat_session w of
       None \<Rightarrow> []
     | Some s \<Rightarrow> command_trace_queue s @ (case trace_feed w of [] \<Rightarrow> [] | a # _ \<Rightarrow> a))"

text \<open>The same for the command output queue.\<close>

definition pending_outputs :: "world \<Rightarrow> CommandOutput list" where
  "pending_outputs w =
    (case chat_session w of
       None \<Rightarrow> []
     | Some s \<Rightarrow> command_output_queue s @ (case output_feed w of [] \<Rightarrow> [] | a # _ \<Rightarrow> a))"

text \<open>Lines 291-296: the state that the call works on.\<close>

definition state_or_fresh :: "BridgeState option \<Rightarrow> BridgeState" where
  "state_or_fresh state = (case state of None \<Rightarrow> fresh_state | Some s \<Rightarrow> s)"

text \<open>The history entries that an inbound message adds (lines 306, 311, 316, 323).\<close>

fun inbound :: "ValidAgentInputMessage \<Rightarrow> Message list" where
  "inbound (User um) = [UserMsg um]"
| "inbound (Tool tm) = [ToolMsg tm]"
| "inbound (MultiTool tms) = map ToolMsg tms"

text \<open>The calls of a completed initialization, the most recent first: the workflow is started
  only with a non-empty text (line 131).\<close>

definition start_calls :: "string option \<Rightarrow> call list" where
  "start_calls t = (case t of None \<Rightarrow> [] | Some s \<Rightarrow> if s \<noteq> [] then [StartWorkflow s] else [])"

definition init_calls :: "string option \<Rightarrow> call list" where
  "init_calls t =
    start_calls t @
    [NewChatSession, ClearWorkflowStack, FwInit, ImportFastworkflow,
     LoadEnv ''examples/fastworkflow.passwords.env'', LoadEnv ''examples/fastworkflow.env'']"

text \<open>The variables of the interaction loop when it ends, if the call gets that far without
  raising.\<close>

definition collected ::
  "ValidAgentInputMessage \<Rightarrow> BridgeState option \<Rightarrow> world \<Rightarrow> loop_vars option" where
  "collected message state w =
    (case fst (handle_message message (state_or_fresh state) w) of
       Inl e \<Rightarrow> None
     | Inr state2 \<Rightarrow>
         (case fst (interaction_loop max_num_steps loop_init
                      (snd (handle_message message (state_or_fresh state) w))) of
            Inl e \<Rightarrow> None
          | Inr lv \<Rightarrow> Some lv))"

text \<open>What the environment does at the next fault point.\<close>

definition next_fault :: "world \<Rightarrow> exn option" where
  "next_fault w = (case faults w of [] \<Rightarrow> None | f # fs \<Rightarrow> f)"

definition outcome :: "exn option \<Rightarrow> exn + unit" where
  "outcome f = (case f of None \<Rightarrow> Inr () | Some e \<Rightarrow> Inl e)"

text \<open>Inputs of the examples: the library with its direction enum, the trace event of a
  cancelled order, and an adapter whose session is running.\<close>

definition fw_lib :: fw_module where
  "fw_lib = \<lparr>has_CommandTraceEventDirection = True\<rparr>"

definition cancel_event :: CommandTraceEvent where
  "cancel_event =
    \<lparr>direction = Some WORKFLOW_TO_AGENT, command_name = PyStr ''cancel_pending_order'',
     parameters = ParamsDict [(''order_id'', ''#W123'')], response_text = PyNone,
     success = Some True\<rparr>"

definition running_adapter :: "ChatSession \<Rightarrow> exn option list \<Rightarrow> world" where
  "running_adapter s fs =
    \<lparr>is_initialized = True, chat_session = Some s, fastworkflow = Some fw_lib, installed = fw_lib,
     faults = fs, trace_feed = [], output_feed = [], calls = [], clock = 0\<rparr>"

text \<open>
  The filter in the words of the specification: the direction is runner to evaluator
  (\<^verbatim>\<open>WORKFLOW_TO_AGENT\<close> in the library's terms) and the name is a non-empty string.
\<close>

definition runner_to_evaluator_named :: "CommandTraceEvent \<Rightarrow> bool" where
  "runner_to_evaluator_named evt =
    (direction evt = Some WORKFLOW_TO_AGENT \<and>
     (case command_name evt of PyStr s \<Rightarrow> s \<noteq> [] | PyNone \<Rightarrow> False | PyOther \<Rightarrow> False))"

text \<open>Two more events for the examples: the echo of a call, and an event without a name.\<close>

definition echo_event :: CommandTraceEvent where
  "echo_event =
    \<lparr>direction = Some AGENT_TO_WORKFLOW, command_name = PyStr ''cancel_pending_order'',
     parameters = ParamsDict [(''order_id'', ''#W123'')], response_text = PyNone,
     success = Some True\<rparr>"

definition unnamed_event :: CommandTraceEvent where
  "unnamed_event =
    \<lparr>direction = Some WORKFLOW_TO_AGENT, command_name = PyStr [],
     parameters = ParamsNone, response_text = PyNone, success = None\<rparr>"

text \<open>
  A run of calls on one adapter, each with the state that the call before returned, and
  the \<^verbatim>\<open>put\<close> calls that forward the user texts of such a run, the most recent first.
\<close>

fun conversation ::
  "ValidAgentInputMessage list \<Rightarrow> BridgeState option \<Rightarrow> world \<Rightarrow> BridgeState option \<times> world" where
  "conversation [] state w = (state, w)"
| "conversation (message # messages) state w =
    (case generate_next_message message state w of
       (Inl e, w') \<Rightarrow> (state, w')
     | (Inr (msg, state'), w') \<Rightarrow> conversation messages state' w')"

fun forwarded :: "ValidAgentInputMessage list \<Rightarrow> call list" where
  "forwarded [] = []"
| "forwarded (User um # messages) = forwarded messages @ [Put (user_content um)]"
| "forwarded (Tool tm # messages) = forwarded messages"
| "forwarded (MultiTool tms # messages) = forwarded messages"

text \<open>
  The filter as the code applies it, in the terms of the specification. The library counts
  as exposing its direction enum when \<^verbatim>\<open>hasattr(self.fastworkflow,
  "CommandTraceEventDirection")\<close> holds; only then is a record compared with
  \<^verbatim>\<open>AGENT_TO_WORKFLOW\<close> (evaluator to runner). A record is converted when it is not
  recognised as evaluator to runner and its name is a non-empty string.
\<close>

definition exposes_directions :: "fw_module option \<Rightarrow> bool" where
  "exposes_directions fw =
    (case fw of None \<Rightarrow> False | Some m \<Rightarrow> has_CommandTraceEventDirection m)"

definition not_evaluator_to_runner_named :: "fw_module option \<Rightarrow> CommandTraceEvent \<Rightarrow> bool" where
  "not_evaluator_to_runner_named fw evt =
    (\<not> (exposes_directions fw \<and> direction evt = Some AGENT_TO_WORKFLOW) \<and>
     (case command_name evt of PyStr s \<Rightarrow> s \<noteq> [] | PyNone \<Rightarrow> False | PyOther \<Rightarrow> False))"

text \<open>More inputs of the examples: an event that carries no direction, and a library that
  does not expose the direction enum.\<close>

definition untagged_event :: CommandTraceEvent where
  "untagged_event =
    \<lparr>direction = None, command_name = PyStr ''get_order_details'',
     parameters = ParamsDict [(''order_id'', ''#W123'')], response_text = PyNone,
     success = Some True\<rparr>"

definition fw_lib_without_enum :: fw_module where
  "fw_lib_without_enum = \<lparr>has_CommandTraceEventDirection = False\<rparr>"

text \<open>
  The records of the command trace queue in the order in which they are enqueued: what
  the queue holds, and behind it what the runner will put into it.
\<close>

definition trace_stream :: "world \<Rightarrow> CommandTraceEvent list" where
  "trace_stream w =
    (case chat_session w of None \<Rightarrow> [] | Some s \<Rightarrow> command_trace_queue s) @
    concat (trace_feed w)"

text \<open>Three records of the examples, in the order in which the runner enqueues them.\<close>

definition lookup_event :: CommandTraceEvent where
  "lookup_event =
    \<lparr>direction = Some WORKFLOW_TO_AGENT, command_name = PyStr ''find_user_id_by_email'',
     parameters = ParamsDict [(''email'', ''a@b.c'')], response_text = PyNone,
     success = Some True\<rparr>"

definition details_event :: CommandTraceEvent where
  "details_event =
    \<lparr>direction = Some WORKFLOW_TO_AGENT, command_name = PyStr ''get_order_details'',
     parameters = ParamsDict [(''order_id'', ''#W123'')], response_text = PyNone,
     success = Some True\<rparr>"

section \<open>Properties of the parts\<close>

lemma convert_loop_eq:
  "convert_loop commands acc =
     acc @ map (\<lambda>(i, c). tool_call_at i c) (enumerate (length acc) commands)"
proof (induction commands arbitrary: acc)
  case Nil
  then show ?case by simp
next
  case (Cons c commands)
  obtain n p r s where c: "c = (n, p, r, s)" by (cases c) auto
  show ?case
    unfolding c by (simp add: Cons.IH tool_call_at_def)
qed

lemma convert_eq:
  "convert_commands_to_tool_calls commands =
     map (\<lambda>(i, c). tool_call_at i c) (enumerate 0 commands)"
  by (simp add: convert_commands_to_tool_calls_def convert_loop_eq)

lemma convert_length: "length (convert_commands_to_tool_calls commands) = length commands"
  by (simp add: convert_eq)

lemma convert_nil_iff: "convert_commands_to_tool_calls commands = [] \<longleftrightarrow> commands = []"
  using convert_length [of commands] by (metis length_0_conv)

lemma map_enumerate_snd: "map (\<lambda>p. f (snd p)) (enumerate n xs) = map f xs"
  by (induction xs arbitrary: n) simp_all

lemma map_enumerate_fst: "map (\<lambda>p. f (fst p)) (enumerate n xs) = map f [n..<n + length xs]"
proof -
  have "map f (map fst (enumerate n xs)) = map (\<lambda>p. f (fst p)) (enumerate n xs)"
    unfolding map_map comp_def by (rule refl)
  then show ?thesis
    unfolding map_fst_enumerate by (rule sym)
qed

lemma convert_names: "map name (convert_commands_to_tool_calls commands) = map fst commands"
  by (simp add: convert_eq tool_call_at_def case_prod_unfold comp_def map_enumerate_snd)

lemma convert_arguments:
  "map arguments (convert_commands_to_tool_calls commands) = map (\<lambda>c. fst (snd c)) commands"
  by (simp add: convert_eq tool_call_at_def case_prod_unfold comp_def
      map_enumerate_snd [where f = "\<lambda>c. fst (snd c)"])

lemma convert_ids:
  "map id' (convert_commands_to_tool_calls commands) =
     map (\<lambda>i. ''call_'' @ str_of_nat i) [0..<length commands]"
  using map_enumerate_fst [where f = "\<lambda>i. ''call_'' @ str_of_nat i" and n = 0 and xs = commands]
  by (simp add: convert_eq tool_call_at_def case_prod_unfold comp_def)

lemma convert_requestor:
  "map requestor (convert_commands_to_tool_calls commands) =
     replicate (length commands) ''assistant''"
  by (simp add: convert_eq tool_call_at_def case_prod_unfold comp_def map_replicate_const)

lemma fault_point_eq:
  "fault_point w = (outcome (next_fault w), w\<lparr>faults := tl (faults w)\<rparr>)"
proof (cases "faults w")
  case Nil
  then have "w\<lparr>faults := []\<rparr> = w" by (cases w) simp
  with Nil show ?thesis by (simp add: fault_point_def next_fault_def outcome_def)
next
  case (Cons f fs)
  then show ?thesis
    by (simp add: fault_point_def next_fault_def outcome_def split: option.splits)
qed

lemma ext_call_eq:
  "ext_call c w = (outcome (next_fault w), w\<lparr>calls := c # calls w, faults := tl (faults w)\<rparr>)"
  by (simp add: ext_call_def seq_def modify_def fault_point_eq next_fault_def)

lemma outcome_cases [simp]:
  "(outcome f = Inr u) = (f = None)"
  "(outcome f = Inl e) = (f = Some e)"
  by (simp_all add: outcome_def split: option.splits)

lemma fault_point_quiet: "faults w = [] \<Longrightarrow> fault_point w = (Inr (), w)"
  by (simp add: fault_point_def)

lemma world_same [simp]: "\<exists>fs. w = w\<lparr>faults := fs\<rparr>"
  by (rule exI [of _ "faults w"]) simp

lemma trace_loop_world:
  "\<exists>fs. snd (snd (trace_loop fw max_drain processed q acc w)) = w\<lparr>faults := fs\<rparr>"
proof (induction q arbitrary: processed acc w)
  case Nil
  have "w = w\<lparr>faults := faults w\<rparr>" by simp
  then show ?case
    by (cases "next_fault w") (auto simp add: fault_point_eq outcome_def)
next
  case (Cons evt q)
  have same: "w = w\<lparr>faults := faults w\<rparr>" by simp
  show ?case
  proof (cases "processed < max_drain")
    case False
    with same show ?thesis by auto
  next
    case True
    show ?thesis
    proof (cases "next_fault w")
      case (Some e)
      with True show ?thesis by (auto simp add: fault_point_eq outcome_def)
    next
      case None
      let ?acc = "if \<not> is_agent_to_workflow fw evt then
                    (if nonempty_str (command_name evt) then acc @ [command_of evt] else acc)
                  else acc"
      from Cons.IH [of "processed + 1" ?acc "w\<lparr>faults := tl (faults w)\<rparr>"]
      obtain fs where "snd (snd (trace_loop fw max_drain (processed + 1) q ?acc
          (w\<lparr>faults := tl (faults w)\<rparr>))) = w\<lparr>faults := fs\<rparr>"
        by auto
      with True None show ?thesis by (auto simp add: fault_point_eq outcome_def)
    qed
  qed
qed

lemma trace_loop_result:
  assumes "fst (trace_loop fw max_drain processed q acc w) = Inr commands"
  shows "commands =
           acc @ map command_of (filter (accepts fw) (take (max_drain - processed) q)) \<and>
         fst (snd (trace_loop fw max_drain processed q acc w)) = drop (max_drain - processed) q"
  using assms
proof (induction q arbitrary: processed acc w)
  case Nil
  then show ?case
    by (cases "next_fault w") (auto simp add: fault_point_eq outcome_def split: if_splits)
next
  case (Cons evt q)
  show ?case
  proof (cases "processed < max_drain")
    case False
    with Cons.prems show ?thesis by simp
  next
    case True
    then have d: "max_drain - processed = Suc (max_drain - (processed + 1))" by simp
    show ?thesis
    proof (cases "next_fault w")
      case (Some e)
      with True Cons.prems show ?thesis by (simp add: fault_point_eq outcome_def)
    next
      case None
      let ?acc = "if \<not> is_agent_to_workflow fw evt then
                    (if nonempty_str (command_name evt) then acc @ [command_of evt] else acc)
                  else acc"
      let ?w1 = "w\<lparr>faults := tl (faults w)\<rparr>"
      have step: "trace_loop fw max_drain processed (evt # q) acc w =
                    trace_loop fw max_drain (processed + 1) q ?acc ?w1"
        using True None by (simp add: fault_point_eq outcome_def)
      from Cons.prems have "fst (trace_loop fw max_drain (processed + 1) q ?acc ?w1) = Inr commands"
        by (simp only: step)
      from Cons.IH [OF this] show ?thesis
        unfolding step d by (simp add: accepts_def)
    qed
  qed
qed

lemma trace_loop_no_faults:
  assumes "faults w = []"
  shows "trace_loop fw max_drain processed q acc w =
           (Inr (acc @ map command_of (filter (accepts fw) (take (max_drain - processed) q))),
            drop (max_drain - processed) q, w)"
  using assms
proof (induction q arbitrary: processed acc)
  case Nil
  then show ?case by (simp add: fault_point_quiet)
next
  case (Cons evt q)
  show ?case
  proof (cases "processed < max_drain")
    case False
    then show ?thesis by simp
  next
    case True
    then have "max_drain - processed = Suc (max_drain - (processed + 1))" by simp
    then show ?thesis using True Cons.prems
      by (simp add: Cons.IH fault_point_quiet accepts_def del: Suc_diff_Suc diff_Suc_Suc)
  qed
qed

lemma trace_loop_fault:
  assumes "next_fault w = Some e" and "processed < max_drain"
  shows "fst (trace_loop fw max_drain processed q acc w) = Inl e"
  using assms by (cases q) (simp_all add: fault_point_eq outcome_def)

lemma output_loop_world:
  "\<exists>fs. snd (snd (output_loop max_drain processed q acc w)) = w\<lparr>faults := fs\<rparr>"
proof (induction q arbitrary: processed acc w)
  case Nil
  have "w = w\<lparr>faults := faults w\<rparr>" by simp
  then show ?case
    by (cases "next_fault w") (auto simp add: fault_point_eq outcome_def)
next
  case (Cons out q)
  have same: "w = w\<lparr>faults := faults w\<rparr>" by simp
  show ?case
  proof (cases "processed < max_drain")
    case False
    with same show ?thesis by auto
  next
    case True
    show ?thesis
    proof (cases "next_fault w")
      case (Some e)
      with True show ?thesis by (auto simp add: fault_point_eq outcome_def)
    next
      case None
      let ?acc = "if texts_of out \<noteq> [] then acc @ [join [CHR 0x0A] (texts_of out)] else acc"
      from Cons.IH [of "processed + 1" ?acc "w\<lparr>faults := tl (faults w)\<rparr>"]
      obtain fs where "snd (snd (output_loop max_drain (processed + 1) q ?acc
          (w\<lparr>faults := tl (faults w)\<rparr>))) = w\<lparr>faults := fs\<rparr>"
        by auto
      with True None show ?thesis by (auto simp add: fault_point_eq outcome_def)
    qed
  qed
qed

lemma output_loop_result:
  assumes "fst (output_loop max_drain processed q acc w) = Inr texts"
  shows "texts =
           acc @ map utterance
             (filter (\<lambda>out. texts_of out \<noteq> []) (take (max_drain - processed) q)) \<and>
         fst (snd (output_loop max_drain processed q acc w)) = drop (max_drain - processed) q"
  using assms
proof (induction q arbitrary: processed acc w)
  case Nil
  then show ?case
    by (cases "next_fault w") (auto simp add: fault_point_eq outcome_def split: if_splits)
next
  case (Cons out q)
  show ?case
  proof (cases "processed < max_drain")
    case False
    with Cons.prems show ?thesis by simp
  next
    case True
    then have d: "max_drain - processed = Suc (max_drain - (processed + 1))" by simp
    show ?thesis
    proof (cases "next_fault w")
      case (Some e)
      with True Cons.prems show ?thesis by (simp add: fault_point_eq outcome_def)
    next
      case None
      let ?acc = "if texts_of out \<noteq> [] then acc @ [join [CHR 0x0A] (texts_of out)] else acc"
      let ?w1 = "w\<lparr>faults := tl (faults w)\<rparr>"
      have step: "output_loop max_drain processed (out # q) acc w =
                    output_loop max_drain (processed + 1) q ?acc ?w1"
        using True None by (simp add: fault_point_eq outcome_def)
      from Cons.prems have "fst (output_loop max_drain (processed + 1) q ?acc ?w1) = Inr texts"
        by (simp only: step)
      from Cons.IH [OF this] show ?thesis
        unfolding step d by (simp add: utterance_def)
    qed
  qed
qed

lemma output_loop_no_faults:
  assumes "faults w = []"
  shows "output_loop max_drain processed q acc w =
           (Inr (acc @ map utterance
                   (filter (\<lambda>out. texts_of out \<noteq> []) (take (max_drain - processed) q))),
            drop (max_drain - processed) q, w)"
  using assms
proof (induction q arbitrary: processed acc)
  case Nil
  then show ?case by (simp add: fault_point_quiet)
next
  case (Cons out q)
  show ?case
  proof (cases "processed < max_drain")
    case False
    then show ?thesis by simp
  next
    case True
    then have "max_drain - processed = Suc (max_drain - (processed + 1))" by simp
    then show ?thesis using True Cons.prems
      by (simp add: Cons.IH fault_point_quiet utterance_def del: Suc_diff_Suc diff_Suc_Suc)
  qed
qed

lemma output_loop_fault:
  assumes "next_fault w = Some e" and "processed < max_drain"
  shows "fst (output_loop max_drain processed q acc w) = Inl e"
  using assms by (cases q) (simp_all add: fault_point_eq outcome_def)

lemma response_texts_nonempty: "t \<in> set (response_texts crs) \<Longrightarrow> t \<noteq> []"
  by (induction crs rule: response_texts.induct) (auto split: if_splits)

lemma texts_of_nonempty: "t \<in> set (texts_of out) \<Longrightarrow> t \<noteq> []"
  by (cases out) (auto dest: response_texts_nonempty split: if_splits)

lemma join_nonempty: "ts \<noteq> [] \<Longrightarrow> \<forall>t\<in>set ts. t \<noteq> [] \<Longrightarrow> join sep ts \<noteq> []"
  by (induction sep ts rule: join.induct) auto

lemma utterance_nonempty: "texts_of out \<noteq> [] \<Longrightarrow> utterance out \<noteq> []"
  unfolding utterance_def by (rule join_nonempty) (auto dest: texts_of_nonempty)

lemma seq_alt:
  "seq m f w = (case fst (m w) of Inl e \<Rightarrow> (Inl e, snd (m w)) | Inr x \<Rightarrow> f x (snd (m w)))"
  by (simp add: seq_def split: prod.splits sum.splits)

lemma fault_point_fields [simp]:
  "is_initialized (snd (fault_point w)) = is_initialized w"
  "chat_session (snd (fault_point w)) = chat_session w"
  "fastworkflow (snd (fault_point w)) = fastworkflow w"
  "installed (snd (fault_point w)) = installed w"
  "calls (snd (fault_point w)) = calls w"
  "clock (snd (fault_point w)) = clock w"
  "trace_feed (snd (fault_point w)) = trace_feed w"
  "output_feed (snd (fault_point w)) = output_feed w"
  by (simp_all add: fault_point_def split: list.splits option.splits)

lemma ext_call_fields [simp]:
  "is_initialized (snd (ext_call c w)) = is_initialized w"
  "chat_session (snd (ext_call c w)) = chat_session w"
  "fastworkflow (snd (ext_call c w)) = fastworkflow w"
  "installed (snd (ext_call c w)) = installed w"
  "calls (snd (ext_call c w)) = c # calls w"
  "clock (snd (ext_call c w)) = clock w"
  "trace_feed (snd (ext_call c w)) = trace_feed w"
  "output_feed (snd (ext_call c w)) = output_feed w"
  by (simp_all add: ext_call_def seq_alt modify_def split: sum.splits)

lemma drain_command_trace_unchanged:
  "is_initialized (snd (drain_command_trace n w)) = is_initialized w \<and>
    (chat_session (snd (drain_command_trace n w)) = None) = (chat_session w = None) \<and>
    fastworkflow (snd (drain_command_trace n w)) = fastworkflow w \<and>
    installed (snd (drain_command_trace n w)) = installed w \<and>
    calls (snd (drain_command_trace n w)) = calls w \<and>
    clock (snd (drain_command_trace n w)) = clock w"
proof (cases "chat_session w")
  case None
  then show ?thesis by (simp add: drain_command_trace_def)
next
  case (Some s)
  obtain fs where "snd (snd (trace_loop (fastworkflow w) n 0 (command_trace_queue s @ (case trace_feed w of [] \<Rightarrow> [] | a # x \<Rightarrow> a)) [] w)) = w\<lparr>faults := fs\<rparr>"
    using trace_loop_world by blast
  with Some show ?thesis by (simp add: drain_command_trace_def Let_def)
qed

lemma drain_command_trace_fields [simp]:
  "is_initialized (snd (drain_command_trace n w)) = is_initialized w"
  "(chat_session (snd (drain_command_trace n w)) = None) = (chat_session w = None)"
  "fastworkflow (snd (drain_command_trace n w)) = fastworkflow w"
  "installed (snd (drain_command_trace n w)) = installed w"
  "calls (snd (drain_command_trace n w)) = calls w"
  "clock (snd (drain_command_trace n w)) = clock w"
  using drain_command_trace_unchanged [of n w] by simp_all

lemma drain_agent_outputs_unchanged:
  "is_initialized (snd (drain_agent_outputs n w)) = is_initialized w \<and>
    (chat_session (snd (drain_agent_outputs n w)) = None) = (chat_session w = None) \<and>
    fastworkflow (snd (drain_agent_outputs n w)) = fastworkflow w \<and>
    installed (snd (drain_agent_outputs n w)) = installed w \<and>
    calls (snd (drain_agent_outputs n w)) = calls w \<and>
    clock (snd (drain_agent_outputs n w)) = clock w"
proof (cases "chat_session w")
  case None
  then show ?thesis by (simp add: drain_agent_outputs_def)
next
  case (Some s)
  obtain fs where "snd (snd (output_loop n 0 (command_output_queue s @ (case output_feed w of [] \<Rightarrow> [] | a # x \<Rightarrow> a)) [] w)) = w\<lparr>faults := fs\<rparr>"
    using output_loop_world by blast
  with Some show ?thesis by (simp add: drain_agent_outputs_def Let_def)
qed

lemma drain_agent_outputs_fields [simp]:
  "is_initialized (snd (drain_agent_outputs n w)) = is_initialized w"
  "(chat_session (snd (drain_agent_outputs n w)) = None) = (chat_session w = None)"
  "fastworkflow (snd (drain_agent_outputs n w)) = fastworkflow w"
  "installed (snd (drain_agent_outputs n w)) = installed w"
  "calls (snd (drain_agent_outputs n w)) = calls w"
  "clock (snd (drain_agent_outputs n w)) = clock w"
  using drain_agent_outputs_unchanged [of n w] by simp_all

lemma poll_once_fields [simp]:
  "is_initialized (snd (poll_once lv w)) = is_initialized w"
  "(chat_session (snd (poll_once lv w)) = None) = (chat_session w = None)"
  "fastworkflow (snd (poll_once lv w)) = fastworkflow w"
  "installed (snd (poll_once lv w)) = installed w"
  "calls (snd (poll_once lv w)) = calls w"
  "clock (snd (poll_once lv w)) = clock w"
  by (simp_all add: poll_once_def seq_alt return_def split: sum.splits)

lemma time_sleep_fields [simp]:
  "is_initialized (time_sleep w) = is_initialized w"
  "chat_session (time_sleep w) = chat_session w"
  "fastworkflow (time_sleep w) = fastworkflow w"
  "installed (time_sleep w) = installed w"
  "calls (time_sleep w) = calls w"
  "clock (time_sleep w) = Suc (clock w)"
  by (simp_all add: time_sleep_def)

declare interaction_loop.simps(2) [simp del]

lemma interaction_loop_Suc:
  "interaction_loop (Suc n) lv w =
    (case fst (poll_once lv w) of
       Inl e \<Rightarrow> (Inl e, snd (poll_once lv w))
     | Inr lv' \<Rightarrow>
         if idle_limit \<le> idle_cycles lv' then (Inr lv', snd (poll_once lv w))
         else interaction_loop n lv' (time_sleep (snd (poll_once lv w))))"
  by (simp add: interaction_loop.simps(2) split: prod.splits sum.splits)

lemma interaction_loop_fields:
  "is_initialized (snd (interaction_loop n lv w)) = is_initialized w \<and>
   (chat_session (snd (interaction_loop n lv w)) = None) = (chat_session w = None) \<and>
   fastworkflow (snd (interaction_loop n lv w)) = fastworkflow w \<and>
   installed (snd (interaction_loop n lv w)) = installed w \<and>
   calls (snd (interaction_loop n lv w)) = calls w"
proof (induction n arbitrary: lv w)
  case 0
  then show ?case by simp
next
  case (Suc n)
  show ?case
    by (simp only: interaction_loop_Suc) (simp add: Suc.IH split: sum.splits)
qed

lemma account_fields [simp]:
  "iteration (account lv commands texts) = Suc (iteration lv)"
  "idle_cycles (account lv commands texts) =
     (if commands = [] \<and> texts = [] then Suc (idle_cycles lv) else 0)"
  "steps_taken (account lv commands texts) =
     (if commands = [] \<and> texts = [] then steps_taken lv else Suc (steps_taken lv))"
  "all_commands (account lv commands texts) = all_commands lv @ commands"
  "all_texts (account lv commands texts) = all_texts lv @ texts"
  by (simp_all add: account_def)

lemma utterances_nonempty:
  assumes "t \<in> set (map utterance (filter (\<lambda>out. texts_of out \<noteq> []) q))"
  shows "t \<noteq> []"
proof -
  from assms obtain out where "texts_of out \<noteq> []" and "t = utterance out" by auto
  then show ?thesis by (simp add: utterance_nonempty)
qed

lemma drain_command_trace_eq:
  assumes "is_initialized w" and "chat_session w \<noteq> None"
    and "fst (drain_command_trace n w) = Inr commands"
  shows "commands =
           map command_of (filter (accepts (fastworkflow w)) (take n (pending_events w)))"
proof -
  from assms(2) obtain s where s: "chat_session w = Some s" by auto
  let ?q = "command_trace_queue s @ (case trace_feed w of [] \<Rightarrow> [] | a # x \<Rightarrow> a)"
  from assms(1,3) s have "fst (trace_loop (fastworkflow w) n 0 ?q [] w) = Inr commands"
    by (simp add: drain_command_trace_def Let_def)
  from trace_loop_result [OF this] s show ?thesis
    by (simp add: pending_events_def)
qed

lemma drain_agent_outputs_eq:
  assumes "is_initialized w" and "chat_session w \<noteq> None"
    and "fst (drain_agent_outputs n w) = Inr texts"
  shows "texts = map utterance (filter (\<lambda>out. texts_of out \<noteq> []) (take n (pending_outputs w)))"
proof -
  from assms(2) obtain s where s: "chat_session w = Some s" by auto
  let ?q = "command_output_queue s @ (case output_feed w of [] \<Rightarrow> [] | a # x \<Rightarrow> a)"
  from assms(1,3) s have "fst (output_loop n 0 ?q [] w) = Inr texts"
    by (simp add: drain_agent_outputs_def Let_def)
  from output_loop_result [OF this] s show ?thesis
    by (simp add: pending_outputs_def)
qed

lemma drain_agent_outputs_idle:
  assumes "\<not> is_initialized w \<or> chat_session w = None"
  shows "drain_agent_outputs n w = (Inr [], w)"
  using assms by (auto simp: drain_agent_outputs_def split: option.splits)

lemma drain_command_trace_idle:
  assumes "\<not> is_initialized w \<or> chat_session w = None"
  shows "drain_command_trace n w = (Inr [], w)"
  using assms by (auto simp: drain_command_trace_def split: option.splits)

lemma drain_fault:
  assumes "is_initialized w" and "chat_session w \<noteq> None" and "next_fault w = Some e"
    and "0 < n"
  shows "fst (drain_command_trace n w) = Inl e" and "fst (drain_agent_outputs n w) = Inl e"
  using assms
  by (auto simp add: drain_command_trace_def drain_agent_outputs_def Let_def
      trace_loop_fault output_loop_fault)

lemma drain_agent_outputs_nonempty:
  assumes "fst (drain_agent_outputs n w) = Inr texts"
  shows "\<forall>t\<in>set texts. t \<noteq> []"
proof (cases "is_initialized w \<and> chat_session w \<noteq> None")
  case False
  with assms show ?thesis by (auto simp: drain_agent_outputs_idle)
next
  case True
  with assms
  have "texts = map utterance (filter (\<lambda>out. texts_of out \<noteq> []) (take n (pending_outputs w)))"
    by (simp add: drain_agent_outputs_eq)
  then show ?thesis using utterances_nonempty by blast
qed

lemma poll_once_account:
  assumes "fst (poll_once lv w) = Inr lv'"
  shows "\<exists>commands texts. lv' = account lv commands texts \<and> (\<forall>t\<in>set texts. t \<noteq> [])"
proof -
  from assms obtain commands texts where
    c: "fst (drain_command_trace 200 w) = Inr commands" and
    t: "fst (drain_agent_outputs 200 (snd (drain_command_trace 200 w))) = Inr texts" and
    lv': "lv' = account lv commands texts"
    by (auto simp: poll_once_def seq_alt return_def split: sum.splits)
  from t have "\<forall>t\<in>set texts. t \<noteq> []" by (rule drain_agent_outputs_nonempty)
  with lv' show ?thesis by blast
qed

lemma interaction_loop_texts:
  assumes "fst (interaction_loop n lv w) = Inr lv'" and "\<forall>t\<in>set (all_texts lv). t \<noteq> []"
  shows "\<forall>t\<in>set (all_texts lv'). t \<noteq> []"
  using assms
proof (induction n arbitrary: lv w)
  case 0
  then show ?case by simp
next
  case (Suc n)
  from Suc.prems(1) obtain lv1 where p: "fst (poll_once lv w) = Inr lv1"
    by (auto simp: interaction_loop_Suc split: sum.splits)
  from poll_once_account [OF p] Suc.prems(2) have inv: "\<forall>t\<in>set (all_texts lv1). t \<noteq> []"
    by auto
  show ?case
  proof (cases "idle_limit \<le> idle_cycles lv1")
    case True
    with Suc.prems(1) p have "lv' = lv1" by (simp add: interaction_loop_Suc)
    with inv show ?thesis by simp
  next
    case False
    with Suc.prems(1) p
    have "fst (interaction_loop n lv1 (time_sleep (snd (poll_once lv w)))) = Inr lv'"
      by (simp add: interaction_loop_Suc)
    from Suc.IH [OF this inv] show ?thesis .
  qed
qed

lemma interaction_loop_bound:
  assumes "idle_cycles lv < idle_limit"
  shows "case fst (interaction_loop n lv w) of
           Inl e \<Rightarrow> clock (snd (interaction_loop n lv w)) < clock w + n
         | Inr lv' \<Rightarrow>
             (idle_cycles lv' = idle_limit \<and> iteration lv < iteration lv' \<and>
              iteration lv' \<le> iteration lv + n \<and>
              Suc (clock (snd (interaction_loop n lv w))) = clock w + (iteration lv' - iteration lv))
             \<or>
             (idle_cycles lv' < idle_limit \<and> iteration lv' = iteration lv + n \<and>
              clock (snd (interaction_loop n lv w)) = clock w + n)"
  using assms
proof (induction n arbitrary: lv w)
  case 0
  then show ?case by simp
next
  case (Suc n)
  show ?case
  proof (cases "fst (poll_once lv w)")
    case (Inl e)
    then show ?thesis by (simp add: interaction_loop_Suc)
  next
    case (Inr lv1)
    from poll_once_account [OF Inr] obtain commands texts where
      lv1: "lv1 = account lv commands texts" by blast
    show ?thesis
    proof (cases "idle_limit \<le> idle_cycles lv1")
      case True
      with Suc.prems lv1 have "idle_cycles lv1 = idle_limit"
        by (simp split: if_splits)
      with Inr True lv1 show ?thesis by (simp add: interaction_loop_Suc)
    next
      case False
      then have lt: "idle_cycles lv1 < idle_limit" by simp
      have eq: "interaction_loop (Suc n) lv w =
                  interaction_loop n lv1 (time_sleep (snd (poll_once lv w)))"
        using Inr False by (simp add: interaction_loop_Suc)
      have it: "iteration lv1 = Suc (iteration lv)" by (simp add: lv1)
      from Suc.IH [OF lt, of "time_sleep (snd (poll_once lv w))"]
      show ?thesis
        unfolding eq by (auto simp: it split: sum.splits)
    qed
  qed
qed

lemma quiet_poll_once:
  assumes "quiet w"
  shows "fst (poll_once lv w) = Inr (account lv [] [])" and "quiet (snd (poll_once lv w))"
  using assms
  by (auto simp: quiet_def poll_once_def drain_command_trace_def drain_agent_outputs_def
      seq_alt return_def trace_loop_no_faults output_loop_no_faults Let_def
      split: option.splits)

lemma quiet_time_sleep: "quiet w \<Longrightarrow> quiet (time_sleep w)"
  by (simp add: quiet_def time_sleep_def)

lemma quiet_interaction_loop:
  assumes "quiet w" and "idle_cycles lv < idle_limit" and "idle_limit \<le> idle_cycles lv + n"
  shows "fst (interaction_loop n lv w) =
           Inr (lv\<lparr>idle_cycles := idle_limit,
                   iteration := iteration lv + (idle_limit - idle_cycles lv)\<rparr>)"
  using assms
proof (induction n arbitrary: lv w)
  case 0
  then show ?case by simp
next
  case (Suc n)
  let ?lv1 = "account lv [] []"
  let ?w1 = "snd (poll_once lv w)"
  have p: "fst (poll_once lv w) = Inr ?lv1" and q: "quiet ?w1"
    using quiet_poll_once [OF Suc.prems(1)] by simp_all
  show ?case
  proof (cases "idle_limit \<le> idle_cycles ?lv1")
    case True
    with Suc.prems(2) have "idle_limit = Suc (idle_cycles lv)" by simp
    with p True show ?thesis
      by (simp add: interaction_loop_Suc account_def)
  next
    case False
    then have lt: "idle_cycles ?lv1 < idle_limit" by simp
    from Suc.prems(3) have le: "idle_limit \<le> idle_cycles ?lv1 + n" by simp
    have "fst (interaction_loop (Suc n) lv w) =
            fst (interaction_loop n ?lv1 (time_sleep ?w1))"
      using p False by (simp add: interaction_loop_Suc)
    also have "\<dots> = Inr (?lv1\<lparr>idle_cycles := idle_limit,
                    iteration := iteration ?lv1 + (idle_limit - idle_cycles ?lv1)\<rparr>)"
      by (rule Suc.IH [OF quiet_time_sleep [OF q] lt le])
    also have "\<dots> = Inr (lv\<lparr>idle_cycles := idle_limit,
                    iteration := iteration lv + (idle_limit - idle_cycles lv)\<rparr>)"
      using Suc.prems(2) by (simp add: account_def)
    finally show ?thesis .
  qed
qed

lemma determine_response_tool_calls:
  "tool_calls (fst (determine_response lv state)) =
     (if all_commands lv \<noteq> [] then Some (convert_commands_to_tool_calls (all_commands lv))
      else None)"
  by (simp add: determine_response_def Let_def convert_nil_iff)

lemma initialize_fastworkflow_fails:
  assumes "\<not> is_initialized w" and "fst (initialize_fastworkflow t w) = Inl e"
  shows "\<not> is_initialized (snd (initialize_fastworkflow t w))"
  using assms
  by (auto simp add: initialize_fastworkflow_def seq_def ext_call_eq modify_def suppress_def
      return_def split: sum.splits option.splits if_splits)

lemma initialize_fastworkflow_succeeds:
  assumes "\<not> is_initialized w" and "fst (initialize_fastworkflow t w) = Inr u"
  shows "is_initialized (snd (initialize_fastworkflow t w))"
    and "chat_session (snd (initialize_fastworkflow t w)) = Some empty_session"
    and "fastworkflow (snd (initialize_fastworkflow t w)) = Some (installed w)"
    and "calls (snd (initialize_fastworkflow t w)) = init_calls t @ calls w"
    and "clock (snd (initialize_fastworkflow t w)) = clock w"
  using assms
  by (auto simp add: initialize_fastworkflow_def seq_def ext_call_eq modify_def suppress_def
      return_def init_calls_def start_calls_def
      split: sum.splits option.splits if_splits)

lemma push_user_message_fields [simp]:
  "is_initialized (snd (push_user_message t w)) = is_initialized w"
  "(chat_session (snd (push_user_message t w)) = None) = (chat_session w = None)"
  "fastworkflow (snd (push_user_message t w)) = fastworkflow w"
  "installed (snd (push_user_message t w)) = installed w"
  "clock (snd (push_user_message t w)) = clock w"
  "calls (snd (push_user_message t w)) =
     (if is_initialized w \<and> chat_session w \<noteq> None then Put t # calls w else calls w)"
  by (auto simp add: push_user_message_def seq_def ext_call_eq modify_def return_def raise_def
      split: option.splits sum.splits)

lemma handle_message_result:
  assumes "fst (handle_message message state w) = Inr state2"
  shows "state2 = append_history (inbound message) state"
proof (cases message)
  case (User um)
  with assms show ?thesis
    by (auto simp add: handle_message_def seq_alt return_def split: if_splits sum.splits)
next
  case (Tool tm)
  with assms show ?thesis by (simp add: handle_message_def return_def)
next
  case (MultiTool tms)
  with assms show ?thesis by (simp add: handle_message_def return_def)
qed

lemma handle_message_running:
  assumes "is_initialized w" and "chat_session w \<noteq> None"
  shows "is_initialized (snd (handle_message message state w)) \<and>
         chat_session (snd (handle_message message state w)) \<noteq> None \<and>
         calls (snd (handle_message message state w)) =
           (case message of User um \<Rightarrow> [Put (user_content um)] | _ \<Rightarrow> []) @ calls w"
proof (cases message)
  case (User um)
  have "snd (handle_message (User um) state w) = snd (push_user_message (user_content um) w)"
    using assms by (simp add: handle_message_def seq_alt return_def split: sum.splits)
  with User assms show ?thesis by simp
next
  case (Tool tm)
  with assms show ?thesis by (simp add: handle_message_def return_def)
next
  case (MultiTool tms)
  with assms show ?thesis by (simp add: handle_message_def return_def)
qed

lemma handle_message_first:
  assumes "\<not> is_initialized w"
  shows "fst (handle_message (User um) state w) =
           (case fst (initialize_fastworkflow (user_content um) w) of
              Inl e \<Rightarrow> Inl e
            | Inr u \<Rightarrow> Inr (append_history [UserMsg um] state))"
    and "snd (handle_message (User um) state w) =
           snd (initialize_fastworkflow (user_content um) w)"
  using assms by (simp_all add: handle_message_def seq_alt return_def split: sum.splits)

lemma generate_next_message_try_eq:
  "generate_next_message_try message state w =
    (case fst (handle_message message (state_or_fresh state) w) of
       Inl e \<Rightarrow>
         (Inl (e, Some (state_or_fresh state)),
          snd (handle_message message (state_or_fresh state) w))
     | Inr state2 \<Rightarrow>
         (case fst (interaction_loop max_num_steps loop_init
                      (snd (handle_message message (state_or_fresh state) w))) of
            Inl e \<Rightarrow>
              (Inl (e, Some state2),
               snd (interaction_loop max_num_steps loop_init
                      (snd (handle_message message (state_or_fresh state) w))))
          | Inr lv \<Rightarrow>
              (Inr (fst (determine_response lv state2), Some (snd (determine_response lv state2))),
               snd (interaction_loop max_num_steps loop_init
                      (snd (handle_message message (state_or_fresh state) w))))))"
proof -
  obtain r1 w1 where h: "handle_message message (state_or_fresh state) w = (r1, w1)"
    by (cases "handle_message message (state_or_fresh state) w")
  obtain r2 w2 where l: "interaction_loop max_num_steps loop_init w1 = (r2, w2)"
    by (cases "interaction_loop max_num_steps loop_init w1")
  have d: "generate_next_message_try message state w =
    (case handle_message message (state_or_fresh state) w of
       (Inl e, w1) \<Rightarrow> (Inl (e, Some (state_or_fresh state)), w1)
     | (Inr state2, w1) \<Rightarrow>
         (case interaction_loop max_num_steps loop_init w1 of
            (Inl e, w2) \<Rightarrow> (Inl (e, Some state2), w2)
          | (Inr lv, w2) \<Rightarrow>
              (Inr (fst (determine_response lv state2), Some (snd (determine_response lv state2))),
               w2)))"
    unfolding generate_next_message_try_def state_or_fresh_def Let_def ..
  show ?thesis
  proof (cases r1)
    case (Inl e)
    with h show ?thesis unfolding d by simp
  next
    case (Inr state2)
    show ?thesis
    proof (cases r2)
      case (Inl e)
      with h l Inr show ?thesis unfolding d by simp
    next
      case r2: (Inr lv)
      with h l Inr show ?thesis unfolding d by simp
    qed
  qed
qed

lemma generate_next_message_try_fst:
  "fst (generate_next_message_try message state w) =
    (case fst (handle_message message (state_or_fresh state) w) of
       Inl e \<Rightarrow> Inl (e, Some (state_or_fresh state))
     | Inr state2 \<Rightarrow>
         (case fst (interaction_loop max_num_steps loop_init
                      (snd (handle_message message (state_or_fresh state) w))) of
            Inl e \<Rightarrow> Inl (e, Some state2)
          | Inr lv \<Rightarrow>
              Inr (fst (determine_response lv state2), Some (snd (determine_response lv state2)))))"
  unfolding generate_next_message_try_eq by (simp split: sum.splits)

lemma generate_next_message_try_snd:
  "snd (generate_next_message_try message state w) =
    (case fst (handle_message message (state_or_fresh state) w) of
       Inl e \<Rightarrow> snd (handle_message message (state_or_fresh state) w)
     | Inr state2 \<Rightarrow>
         snd (interaction_loop max_num_steps loop_init
                (snd (handle_message message (state_or_fresh state) w))))"
  unfolding generate_next_message_try_eq by (simp split: sum.splits)

lemma generate_next_message_fst:
  "fst (generate_next_message message state w) =
    (case fst (generate_next_message_try message state w) of
       Inl (e, state') \<Rightarrow> Inr (error_message e, state')
     | Inr r \<Rightarrow> Inr r)"
  by (simp add: generate_next_message_def split: prod.splits sum.splits)

lemma generate_next_message_snd:
  "snd (generate_next_message message state w) = snd (generate_next_message_try message state w)"
  by (simp add: generate_next_message_def split: prod.splits sum.splits)

lemma determine_response_variants:
  assumes "\<forall>t\<in>set (all_texts lv). t \<noteq> []"
  shows "fst (determine_response lv state) =
    (if all_commands lv \<noteq> [] then
       \<lparr>role = ''assistant'', content = None,
        tool_calls = Some (convert_commands_to_tool_calls (all_commands lv)), cost = 0\<rparr>
     else if all_texts lv \<noteq> [] then
       \<lparr>role = ''assistant'', content = Some (last (all_texts lv)), tool_calls = None, cost = 0\<rparr>
     else
       \<lparr>role = ''assistant'', content = Some apology, tool_calls = None, cost = 0\<rparr>)"
proof -
  have "all_texts lv \<noteq> [] \<Longrightarrow> last (all_texts lv) \<noteq> []"
    using assms last_in_set by blast
  then show ?thesis
    by (simp add: determine_response_def Let_def convert_nil_iff)
qed

lemma collected_texts:
  assumes "collected message state w = Some lv"
  shows "\<forall>t\<in>set (all_texts lv). t \<noteq> []"
proof -
  from assms have "fst (interaction_loop max_num_steps loop_init
      (snd (handle_message message (state_or_fresh state) w))) = Inr lv"
    by (simp add: collected_def split: sum.splits)
  then show ?thesis
    by (rule interaction_loop_texts) (simp add: loop_init_def)
qed

lemma interaction_loop_then_quiet:
  assumes "fst (poll_once lv w) = Inr lv1" and "idle_cycles lv1 < idle_limit"
    and "quiet (snd (poll_once lv w))" and "idle_limit \<le> idle_cycles lv1 + n"
  shows "fst (interaction_loop (Suc n) lv w) =
           Inr (lv1\<lparr>idle_cycles := idle_limit,
                    iteration := iteration lv1 + (idle_limit - idle_cycles lv1)\<rparr>)"
proof -
  have "fst (interaction_loop (Suc n) lv w) =
          fst (interaction_loop n lv1 (time_sleep (snd (poll_once lv w))))"
    using assms(1,2) by (simp add: interaction_loop_Suc)
  also have "\<dots> = Inr (lv1\<lparr>idle_cycles := idle_limit,
                    iteration := iteration lv1 + (idle_limit - idle_cycles lv1)\<rparr>)"
    by (rule quiet_interaction_loop [OF quiet_time_sleep [OF assms(3)] assms(2) assms(4)])
  finally show ?thesis .
qed

lemma max_num_steps_Suc: "max_num_steps = Suc 4999"
  by (simp add: max_num_steps_def)

lemma generate_next_message_try_then_quiet:
  assumes "handle_message message (state_or_fresh state) w = (Inr state2, w1)"
    and "fst (poll_once loop_init w1) = Inr lv1" and "idle_cycles lv1 < idle_limit"
    and "quiet (snd (poll_once loop_init w1))"
  shows "fst (generate_next_message_try message state w) =
           Inr (fst (determine_response lv1 state2), Some (snd (determine_response lv1 state2)))"
proof -
  let ?lv = "lv1\<lparr>idle_cycles := idle_limit,
                 iteration := iteration lv1 + (idle_limit - idle_cycles lv1)\<rparr>"
  have "idle_limit \<le> idle_cycles lv1 + 4999" by (simp add: idle_limit_def)
  from interaction_loop_then_quiet [OF assms(2,3,4) this]
  have "fst (interaction_loop max_num_steps loop_init w1) = Inr ?lv"
    by (simp only: max_num_steps_Suc)
  moreover have "determine_response ?lv state2 = determine_response lv1 state2"
    by (simp add: determine_response_def)
  ultimately show ?thesis
    using assms(1) by (simp add: generate_next_message_try_fst)
qed

lemma first_fault_raises:
  assumes "is_initialized w" and "chat_session w \<noteq> None" and "next_fault w = Some e"
  shows "fst (generate_next_message_try message state w) =
           Inl (e, Some (case message of
                           User um \<Rightarrow> state_or_fresh state
                         | Tool tm \<Rightarrow> append_history (inbound message) (state_or_fresh state)
                         | MultiTool tms \<Rightarrow> append_history (inbound message) (state_or_fresh state)))"
proof (cases message)
  case (User um)
  have "fst (push_user_message (user_content um) w) = Inl e"
    using assms
    by (auto simp add: push_user_message_def seq_def ext_call_eq modify_def outcome_def)
  then have "fst (handle_message message (state_or_fresh state) w) = Inl e"
    using assms User by (simp add: handle_message_def seq_alt)
  with User show ?thesis by (simp add: generate_next_message_try_fst)
next
  case (Tool tm)
  have h: "handle_message message (state_or_fresh state) w =
             (Inr (append_history (inbound message) (state_or_fresh state)), w)"
    using Tool by (simp add: handle_message_def return_def)
  have "fst (poll_once loop_init w) = Inl e"
    using assms by (simp add: poll_once_def seq_alt drain_fault)
  then have "fst (interaction_loop max_num_steps loop_init w) = Inl e"
    unfolding max_num_steps_Suc interaction_loop_Suc by simp
  with h Tool show ?thesis by (simp add: generate_next_message_try_fst)
next
  case (MultiTool tms)
  have h: "handle_message message (state_or_fresh state) w =
             (Inr (append_history (inbound message) (state_or_fresh state)), w)"
    using MultiTool by (simp add: handle_message_def return_def)
  have "fst (poll_once loop_init w) = Inl e"
    using assms by (simp add: poll_once_def seq_alt drain_fault)
  then have "fst (interaction_loop max_num_steps loop_init w) = Inl e"
    unfolding max_num_steps_Suc interaction_loop_Suc by simp
  with h MultiTool show ?thesis by (simp add: generate_next_message_try_fst)
qed

lemma generate_next_message_returns:
  "\<exists>msg state'. fst (generate_next_message message state w) = Inr (msg, state')"
  by (cases "fst (generate_next_message_try message state w)")
     (auto simp add: generate_next_message_fst)

lemma first_message_init_fails:
  assumes "\<not> is_initialized w" and "fst (initialize_fastworkflow (user_content um) w) = Inl e"
  shows "generate_next_message_try (User um) state w =
           (Inl (e, Some (state_or_fresh state)),
            snd (initialize_fastworkflow (user_content um) w))"
  using assms
  by (simp add: generate_next_message_try_eq handle_message_first)

lemma accepts_typed:
  assumes "has_CommandTraceEventDirection m" and "direction evt \<noteq> None"
  shows "accepts (Some m) evt = runner_to_evaluator_named evt"
proof -
  from assms(2) obtain d where d: "direction evt = Some d" by auto
  show ?thesis
    using assms(1) d
    by (cases d; cases "command_name evt")
       (simp_all add: accepts_def is_agent_to_workflow_def runner_to_evaluator_named_def)
qed

lemma filter_accepts_typed:
  assumes "has_CommandTraceEventDirection m" and "\<forall>evt\<in>set q. direction evt \<noteq> None"
  shows "filter (accepts (Some m)) q = filter runner_to_evaluator_named q"
  using assms by (intro filter_cong refl) (simp add: accepts_typed)


lemma collected_message:
  assumes "collected message state w = Some lv"
  shows "fst (generate_next_message message state w) =
           Inr (fst (determine_response lv
                       (append_history (inbound message) (state_or_fresh state))),
                Some (snd (determine_response lv
                       (append_history (inbound message) (state_or_fresh state)))))"
proof -
  from assms obtain state2 where
    h: "fst (handle_message message (state_or_fresh state) w) = Inr state2" and
    l: "fst (interaction_loop max_num_steps loop_init
              (snd (handle_message message (state_or_fresh state) w))) = Inr lv"
    by (auto simp add: collected_def split: sum.splits)
  from h have "state2 = append_history (inbound message) (state_or_fresh state)"
    by (rule handle_message_result)
  with h l show ?thesis
    by (simp add: generate_next_message_fst generate_next_message_try_fst)
qed


lemma poll_once_drains:
  assumes "fst (poll_once lv w) = Inr lv'"
  shows "\<exists>commands texts.
           fst (drain_command_trace 200 w) = Inr commands \<and>
           fst (drain_agent_outputs 200 (snd (drain_command_trace 200 w))) = Inr texts \<and>
           lv' = account lv commands texts"
  using assms
  by (auto simp add: poll_once_def seq_alt return_def split: sum.splits)

lemma unflag_uninitialized: "\<not> is_initialized w \<Longrightarrow> w\<lparr>is_initialized := False\<rparr> = w"
  by (cases w) simp

lemma reset_eq:
  "reset w =
    (Inr (),
     (if is_initialized w \<and> chat_session w \<noteq> None then
        (if fastworkflow w \<noteq> None then
           (case next_fault w of
              None \<Rightarrow> w\<lparr>calls := ClearWorkflowStack # calls w, faults := tl (faults w),
                         chat_session := None\<rparr>
            | Some e \<Rightarrow> w\<lparr>calls := ClearWorkflowStack # calls w, faults := tl (faults w)\<rparr>)
         else w\<lparr>chat_session := None\<rparr>)
      else w)\<lparr>is_initialized := False\<rparr>)"
  by (auto simp add: reset_def seq_def suppress_def modify_def ext_call_eq outcome_def
      split: option.splits)

lemma reset_returns: "fst (reset w) = Inr ()"
  by (simp add: reset_eq)

lemma reset_unflags: "\<not> is_initialized (snd (reset w))"
  by (simp add: reset_eq)

lemma reset_uninitialized: "\<not> is_initialized w \<Longrightarrow> reset w = (Inr (), w)"
  by (simp add: reset_eq unflag_uninitialized)

lemma generate_next_message_world:
  "snd (generate_next_message message state w) =
    (case fst (handle_message message (state_or_fresh state) w) of
       Inl e \<Rightarrow> snd (handle_message message (state_or_fresh state) w)
     | Inr state2 \<Rightarrow>
         snd (interaction_loop max_num_steps loop_init
                (snd (handle_message message (state_or_fresh state) w))))"
  by (simp add: generate_next_message_snd generate_next_message_try_snd)

lemma generate_next_message_running:
  assumes "is_initialized w" and "chat_session w \<noteq> None"
  shows "is_initialized (snd (generate_next_message message state w)) \<and>
         chat_session (snd (generate_next_message message state w)) \<noteq> None \<and>
         calls (snd (generate_next_message message state w)) =
           (case message of User um \<Rightarrow> [Put (user_content um)] | _ \<Rightarrow> []) @ calls w"
  using handle_message_running [OF assms, of message "state_or_fresh state"]
    interaction_loop_fields [of max_num_steps loop_init
      "snd (handle_message message (state_or_fresh state) w)"]
  by (auto simp add: generate_next_message_world split: sum.splits)

lemma generate_next_message_first:
  assumes "\<not> is_initialized w" and "fst (initialize_fastworkflow (user_content um) w) = Inr ()"
  shows "is_initialized (snd (generate_next_message (User um) state w)) \<and>
         chat_session (snd (generate_next_message (User um) state w)) \<noteq> None \<and>
         calls (snd (generate_next_message (User um) state w)) =
           init_calls (user_content um) @ calls w"
  using initialize_fastworkflow_succeeds [OF assms]
    interaction_loop_fields [of max_num_steps loop_init
      "snd (initialize_fastworkflow (user_content um) w)"]
  by (auto simp add: generate_next_message_world handle_message_first [OF assms(1)] assms(2))

lemma conversation_running:
  assumes "is_initialized w" and "chat_session w \<noteq> None"
  shows "is_initialized (snd (conversation messages state w)) \<and>
         chat_session (snd (conversation messages state w)) \<noteq> None \<and>
         calls (snd (conversation messages state w)) = forwarded messages @ calls w"
  using assms
proof (induction messages arbitrary: state w)
  case Nil
  then show ?case by simp
next
  case (Cons message messages)
  obtain msg state' where
    r: "fst (generate_next_message message state w) = Inr (msg, state')"
    using generate_next_message_returns [of message state w] by blast
  let ?w' = "snd (generate_next_message message state w)"
  have c: "conversation (message # messages) state w = conversation messages state' ?w'"
    using r by (cases "generate_next_message message state w") simp
  note g = generate_next_message_running [OF Cons.prems, of message state]
  from g have i: "is_initialized ?w'" and s: "chat_session ?w' \<noteq> None" by simp_all
  from Cons.IH [OF i s, of state'] g show ?case
    unfolding c by (cases message) simp_all
qed

lemma accepts_worded: "accepts fw evt = not_evaluator_to_runner_named fw evt"
  by (cases fw; cases "command_name evt")
    (simp_all add: accepts_def not_evaluator_to_runner_named_def exposes_directions_def
      is_agent_to_workflow_def)

lemma filter_accepts_worded: "filter (accepts fw) q = filter (not_evaluator_to_runner_named fw) q"
  by (simp add: accepts_worded [abs_def])

lemma worded_typed:
  assumes "exposes_directions fw" and "\<forall>evt\<in>set q. direction evt \<noteq> None"
  shows "filter (not_evaluator_to_runner_named fw) q = filter runner_to_evaluator_named q"
proof -
  from assms(1) obtain m where "fw = Some m" and "has_CommandTraceEventDirection m"
    by (cases fw) (simp_all add: exposes_directions_def)
  with assms(2) show ?thesis
    by (simp only: filter_accepts_worded [symmetric] filter_accepts_typed)
qed

lemma generate_next_message_then_quiet:
  assumes "handle_message message (state_or_fresh state) w = (Inr state2, w1)"
    and "fst (poll_once loop_init w1) = Inr lv1" and "idle_cycles lv1 < idle_limit"
    and "quiet (snd (poll_once loop_init w1))"
  shows "fst (generate_next_message message state w) =
           Inr (fst (determine_response lv1 state2), Some (snd (determine_response lv1 state2)))"
  using generate_next_message_try_then_quiet [OF assms]
  by (simp add: generate_next_message_fst)

lemma trace_stream_faults [simp]: "trace_stream (w\<lparr>faults := fs\<rparr>) = trace_stream w"
  by (simp add: trace_stream_def)

lemma trace_stream_time_sleep [simp]: "trace_stream (time_sleep w) = trace_stream w"
  by (simp add: trace_stream_def time_sleep_def)

lemma drain_command_trace_stream:
  assumes "fst (drain_command_trace n w) = Inr commands"
  shows "\<exists>D. commands = map command_of (filter (accepts (fastworkflow w)) D) \<and>
             trace_stream w = D @ trace_stream (snd (drain_command_trace n w))"
proof (cases "is_initialized w \<and> chat_session w \<noteq> None")
  case False
  then have "drain_command_trace n w = (Inr [], w)"
    by (auto simp add: drain_command_trace_idle)
  with assms have "commands = map command_of (filter (accepts (fastworkflow w)) []) \<and>
      trace_stream w = [] @ trace_stream (snd (drain_command_trace n w))"
    by simp
  then show ?thesis by blast
next
  case True
  then obtain s where s: "chat_session w = Some s" by auto
  let ?arrived = "case trace_feed w of [] \<Rightarrow> [] | a # x \<Rightarrow> a"
  let ?q = "command_trace_queue s @ ?arrived"
  let ?r = "trace_loop (fastworkflow w) n 0 ?q [] w"
  from True assms s have "fst ?r = Inr commands"
    by (simp add: drain_command_trace_def Let_def)
  from trace_loop_result [OF this]
  have c: "commands = map command_of (filter (accepts (fastworkflow w)) (take n ?q))"
    and l: "fst (snd ?r) = drop n ?q"
    by simp_all
  have "trace_stream (snd (drain_command_trace n w)) = drop n ?q @ concat (tl (trace_feed w))"
    using True s l by (simp add: drain_command_trace_def Let_def trace_stream_def)
  moreover have "trace_stream w = ?q @ concat (tl (trace_feed w))"
    using s by (cases "trace_feed w") (simp_all add: trace_stream_def)
  ultimately have "trace_stream w = take n ?q @ trace_stream (snd (drain_command_trace n w))"
    by (simp only: append_assoc [symmetric] append_take_drop_id)
  with c show ?thesis by blast
qed

lemma drain_agent_outputs_stream [simp]:
  "trace_stream (snd (drain_agent_outputs n w)) = trace_stream w"
proof (cases "chat_session w")
  case None
  then show ?thesis by (simp add: drain_agent_outputs_def)
next
  case (Some s)
  let ?q = "command_output_queue s @ (case output_feed w of [] \<Rightarrow> [] | a # x \<Rightarrow> a)"
  obtain fs where "snd (snd (output_loop n 0 ?q [] w)) = w\<lparr>faults := fs\<rparr>"
    using output_loop_world by blast
  with Some show ?thesis
    by (simp add: drain_agent_outputs_def Let_def trace_stream_def)
qed

lemma poll_once_snd:
  assumes "fst (poll_once lv w) = Inr lv'"
  shows "snd (poll_once lv w) = snd (drain_agent_outputs 200 (snd (drain_command_trace 200 w)))"
  using assms
  by (auto simp add: poll_once_def seq_alt return_def split: sum.splits)

lemma poll_once_stream:
  assumes "fst (poll_once lv w) = Inr lv'"
  shows "\<exists>D. all_commands lv' =
               all_commands lv @ map command_of (filter (accepts (fastworkflow w)) D) \<and>
             trace_stream w = D @ trace_stream (snd (poll_once lv w))"
proof -
  from poll_once_drains [OF assms] obtain commands texts where
    d: "fst (drain_command_trace 200 w) = Inr commands" and
    a: "lv' = account lv commands texts"
    by blast
  from drain_command_trace_stream [OF d] obtain D where
    "commands = map command_of (filter (accepts (fastworkflow w)) D)" and
    "trace_stream w = D @ trace_stream (snd (drain_command_trace 200 w))"
    by blast
  with a have "all_commands lv' =
      all_commands lv @ map command_of (filter (accepts (fastworkflow w)) D) \<and>
      trace_stream w = D @ trace_stream (snd (poll_once lv w))"
    by (simp add: poll_once_snd [OF assms])
  then show ?thesis by blast
qed

lemma interaction_loop_stream:
  assumes "fst (interaction_loop n lv w) = Inr lv'"
  shows "\<exists>D. all_commands lv' =
               all_commands lv @ map command_of (filter (accepts (fastworkflow w)) D) \<and>
             trace_stream w = D @ trace_stream (snd (interaction_loop n lv w))"
  using assms
proof (induction n arbitrary: lv w)
  case 0
  then have "all_commands lv' =
      all_commands lv @ map command_of (filter (accepts (fastworkflow w)) []) \<and>
      trace_stream w = [] @ trace_stream (snd (interaction_loop 0 lv w))"
    by simp
  then show ?case by blast
next
  case (Suc n)
  obtain r w1 where p: "poll_once lv w = (r, w1)" by (cases "poll_once lv w")
  show ?case
  proof (cases r)
    case (Inl e)
    with Suc.prems p show ?thesis by (simp add: interaction_loop.simps(2))
  next
    case (Inr lv1)
    with p have p1: "fst (poll_once lv w) = Inr lv1" and w1: "snd (poll_once lv w) = w1"
      by simp_all
    from poll_once_stream [OF p1] w1 obtain D1 where
      c1: "all_commands lv1 =
             all_commands lv @ map command_of (filter (accepts (fastworkflow w)) D1)" and
      s1: "trace_stream w = D1 @ trace_stream w1"
      by auto
    show ?thesis
    proof (cases "idle_limit \<le> idle_cycles lv1")
      case True
      with p Inr Suc.prems have "lv' = lv1" and "snd (interaction_loop (Suc n) lv w) = w1"
        by (simp_all add: interaction_loop.simps(2))
      with c1 s1 show ?thesis by blast
    next
      case False
      with p Inr have step: "interaction_loop (Suc n) lv w = interaction_loop n lv1 (time_sleep w1)"
        by (simp add: interaction_loop.simps(2))
      from Suc.prems have "fst (interaction_loop n lv1 (time_sleep w1)) = Inr lv'"
        by (simp only: step)
      from Suc.IH [OF this] obtain D2 where
        c2: "all_commands lv' =
               all_commands lv1 @
               map command_of (filter (accepts (fastworkflow (time_sleep w1))) D2)" and
        s2: "trace_stream (time_sleep w1) =
               D2 @ trace_stream (snd (interaction_loop n lv1 (time_sleep w1)))"
        by blast
      have f: "fastworkflow (time_sleep w1) = fastworkflow w"
        using w1 by (simp add: time_sleep_def) (metis poll_once_fields(3))
      from c1 c2 s1 s2 f have "all_commands lv' =
          all_commands lv @ map command_of (filter (accepts (fastworkflow w)) (D1 @ D2)) \<and>
          trace_stream w = (D1 @ D2) @ trace_stream (snd (interaction_loop (Suc n) lv w))"
        by (simp add: step)
      then show ?thesis by blast
    qed
  qed
qed

lemma collected_stream:
  assumes "collected message state w = Some lv"
  shows "\<exists>D rest.
           trace_stream (snd (handle_message message (state_or_fresh state) w)) = D @ rest \<and>
           all_commands lv =
             map command_of
               (filter (accepts (fastworkflow (snd (handle_message message (state_or_fresh state) w))))
                  D)"
proof -
  let ?w1 = "snd (handle_message message (state_or_fresh state) w)"
  from assms have "fst (interaction_loop max_num_steps loop_init ?w1) = Inr lv"
    by (auto simp add: collected_def split: sum.splits)
  from interaction_loop_stream [OF this] obtain D where
    "all_commands lv =
       all_commands loop_init @ map command_of (filter (accepts (fastworkflow ?w1)) D)" and
    "trace_stream ?w1 = D @ trace_stream (snd (interaction_loop max_num_steps loop_init ?w1))"
    by blast
  then have "trace_stream ?w1 =
      D @ trace_stream (snd (interaction_loop max_num_steps loop_init ?w1)) \<and>
      all_commands lv = map command_of (filter (accepts (fastworkflow ?w1)) D)"
    by (simp add: loop_init_def)
  then show ?thesis by blast
qed

lemma collected_two_polls_then_quiet:
  assumes "handle_message message (state_or_fresh state) w = (Inr state2, w1)"
    and "poll_once loop_init w1 = (Inr lv1, w2)" and "idle_cycles lv1 < idle_limit"
    and "fst (poll_once lv1 (time_sleep w2)) = Inr lv2" and "idle_cycles lv2 < idle_limit"
    and "quiet (snd (poll_once lv1 (time_sleep w2)))"
  shows "collected message state w =
           Some (lv2\<lparr>idle_cycles := idle_limit,
                     iteration := iteration lv2 + (idle_limit - idle_cycles lv2)\<rparr>)"
proof -
  have m: "max_num_steps = Suc (Suc 4998)"
    by (simp add: max_num_steps_def)
  have "interaction_loop (Suc (Suc 4998)) loop_init w1 =
          interaction_loop (Suc 4998) lv1 (time_sleep w2)"
    using assms(2,3) by (subst interaction_loop.simps(2)) simp
  moreover have "idle_limit \<le> idle_cycles lv2 + 4998"
    by (simp add: idle_limit_def)
  from interaction_loop_then_quiet [OF assms(4,5,6) this]
  have "fst (interaction_loop (Suc 4998) lv1 (time_sleep w2)) =
          Inr (lv2\<lparr>idle_cycles := idle_limit,
                   iteration := iteration lv2 + (idle_limit - idle_cycles lv2)\<rparr>)" .
  ultimately have "fst (interaction_loop max_num_steps loop_init w1) =
          Inr (lv2\<lparr>idle_cycles := idle_limit,
                   iteration := iteration lv2 + (idle_limit - idle_cycles lv2)\<rparr>)"
    by (simp only: m)
  then show ?thesis
    using assms(1) by (simp add: collected_def)
qed

lemma conversation_single:
  "snd (conversation [message] state w) = snd (generate_next_message message state w)"
  by (cases "generate_next_message message state w")
    (auto split: sum.splits prod.splits)

lemma conversation_Cons:
  assumes "generate_next_message message state w = (Inr (msg, state'), w')"
  shows "conversation (message # messages) state w = conversation messages state' w'"
  using assms by simp

lemma generate_next_message_init_fails:
  assumes "\<not> is_initialized w" and "fst (initialize_fastworkflow (user_content um) w) = Inl e"
  shows "generate_next_message (User um) state w =
           (Inr (error_message e, Some (state_or_fresh state)),
            snd (initialize_fastworkflow (user_content um) w))"
  using first_message_init_fails [OF assms, of state]
  by (simp add: generate_next_message_def)

lemma conversation_first:
  assumes "\<not> is_initialized w" and "fst (initialize_fastworkflow (user_content um) w) = Inr ()"
  shows "is_initialized (snd (conversation (User um # messages) state w)) \<and>
         calls (snd (conversation (User um # messages) state w)) =
           forwarded messages @ init_calls (user_content um) @ calls w"
proof -
  let ?w' = "snd (generate_next_message (User um) state w)"
  obtain msg state' where "fst (generate_next_message (User um) state w) = Inr (msg, state')"
    using generate_next_message_returns by blast
  then have "generate_next_message (User um) state w = (Inr (msg, state'), ?w')"
    by (simp add: prod_eq_iff)
  then have c: "conversation (User um # messages) state w = conversation messages state' ?w'"
    by (rule conversation_Cons)
  from generate_next_message_first [OF assms, of state]
  have i: "is_initialized ?w'" "chat_session ?w' \<noteq> None"
    and k: "calls ?w' = init_calls (user_content um) @ calls w"
    by simp_all
  from conversation_running [OF i, of messages state'] k show ?thesis
    unfolding c by simp
qed

section \<open>The claims\<close>

text \<open>
  C1. A call that returns through the normal path, that is, whose \<^verbatim>\<open>try\<close> body does not
  raise, returns a message with exactly one of \<^verbatim>\<open>content\<close> and \<^verbatim>\<open>tool_calls\<close> set: the
  converted calls (and no content, whatever text was collected) when a command was
  collected, else the last collected text, else the apology.
\<close>

theorem one_variant_per_message:
  assumes "fst (generate_next_message_try message state w) = Inr (msg, state')"
  shows "fst (generate_next_message message state w) = Inr (msg, state') \<and>
         (content msg = None) \<noteq> (tool_calls msg = None) \<and> tool_calls msg \<noteq> Some [] \<and>
         (\<exists>lv. collected message state w = Some lv \<and>
            (if all_commands lv \<noteq> [] then
               tool_calls msg = Some (convert_commands_to_tool_calls (all_commands lv)) \<and>
               content msg = None
             else if all_texts lv \<noteq> [] then
               content msg = Some (last (all_texts lv)) \<and> tool_calls msg = None
             else content msg = Some apology \<and> tool_calls msg = None))"
proof -
  from assms obtain state2 lv where
    c: "collected message state w = Some lv" and
    m: "msg = fst (determine_response lv state2)"
    by (auto simp add: generate_next_message_try_fst collected_def split: sum.splits)
  have v: "msg =
    (if all_commands lv \<noteq> [] then
       \<lparr>role = ''assistant'', content = None,
        tool_calls = Some (convert_commands_to_tool_calls (all_commands lv)), cost = 0\<rparr>
     else if all_texts lv \<noteq> [] then
       \<lparr>role = ''assistant'', content = Some (last (all_texts lv)), tool_calls = None, cost = 0\<rparr>
     else
       \<lparr>role = ''assistant'', content = Some apology, tool_calls = None, cost = 0\<rparr>)"
    unfolding m by (rule determine_response_variants) (rule collected_texts [OF c])
  have "fst (generate_next_message message state w) = Inr (msg, state')"
    using assms by (simp add: generate_next_message_fst)
  moreover have "(content msg = None) \<noteq> (tool_calls msg = None) \<and> tool_calls msg \<noteq> Some []"
    by (simp add: v convert_nil_iff)
  moreover have "if all_commands lv \<noteq> [] then
               tool_calls msg = Some (convert_commands_to_tool_calls (all_commands lv)) \<and>
               content msg = None
             else if all_texts lv \<noteq> [] then
               content msg = Some (last (all_texts lv)) \<and> tool_calls msg = None
             else content msg = Some apology \<and> tool_calls msg = None"
    by (simp add: v)
  ultimately show ?thesis using c by simp
qed

theorem one_variant_per_message_witness:
  "fst (generate_next_message (User (UserMessage (Some ''I want to cancel order #W123''))) None
          (new_adapter fw_lib [] [[cancel_event]] [])) =
     Inr (\<lparr>role = ''assistant'', content = None,
            tool_calls = Some [\<lparr>id' = ''call_0'', name = ''cancel_pending_order'',
              arguments = [(''order_id'', ''#W123'')], requestor = ''assistant''\<rparr>],
            cost = 0\<rparr>,
          Some \<lparr>message_history =
                  [UserMsg (UserMessage (Some ''I want to cancel order #W123'')),
                   AssistantMsg \<lparr>role = ''assistant'', content = None,
                     tool_calls = Some [\<lparr>id' = ''call_0'', name = ''cancel_pending_order'',
                       arguments = [(''order_id'', ''#W123'')], requestor = ''assistant''\<rparr>],
                     cost = 0\<rparr>],
                awaiting_response = False,
                last_tool_calls = [\<lparr>id' = ''call_0'', name = ''cancel_pending_order'',
                  arguments = [(''order_id'', ''#W123'')], requestor = ''assistant''\<rparr>]\<rparr>)"
proof -
  let ?m = "User (UserMessage (Some ''I want to cancel order #W123''))"
  let ?w = "new_adapter fw_lib [] [[cancel_event]] []"
  let ?w1 = "\<lparr>is_initialized = True, chat_session = Some empty_session, fastworkflow = Some fw_lib,
     installed = fw_lib, faults = [], trace_feed = [[cancel_event]], output_feed = [],
     calls = [StartWorkflow ''I want to cancel order #W123'', NewChatSession,
       ClearWorkflowStack, FwInit, ImportFastworkflow,
       LoadEnv ''examples/fastworkflow.passwords.env'', LoadEnv ''examples/fastworkflow.env''],
     clock = 0\<rparr>"
  let ?lv1 = "\<lparr>idle_cycles = 0, steps_taken = 1,
     all_commands = [(''cancel_pending_order'', [(''order_id'', ''#W123'')], PyNone, True)],
     all_texts = [], iteration = 1\<rparr>"
  have h: "handle_message ?m (state_or_fresh None) ?w =
             (Inr (append_history [UserMsg (UserMessage (Some ''I want to cancel order #W123''))]
                fresh_state), ?w1)"
    by (simp add: handle_message_def new_adapter_def initialize_fastworkflow_def seq_def
        ext_call_def fault_point_def modify_def suppress_def return_def state_or_fresh_def)
  have p: "poll_once loop_init ?w1 =
             (Inr ?lv1, ?w1\<lparr>trace_feed := []\<rparr>)"
    by (simp add: poll_once_def drain_command_trace_def drain_agent_outputs_def seq_def
        fault_point_def return_def empty_session_def cancel_event_def fw_lib_def account_def
        loop_init_def is_agent_to_workflow_def command_of_def)
  have t: "fst (generate_next_message_try ?m None ?w) =
             Inr (fst (determine_response ?lv1
                    (append_history [UserMsg (UserMessage (Some ''I want to cancel order #W123''))]
                       fresh_state)),
                  Some (snd (determine_response ?lv1
                    (append_history [UserMsg (UserMessage (Some ''I want to cancel order #W123''))]
                       fresh_state))))"
  proof (rule generate_next_message_try_then_quiet [OF h])
    show "fst (poll_once loop_init ?w1) = Inr ?lv1"
      by (simp only: p fst_conv)
    show "idle_cycles ?lv1 < idle_limit"
      by (simp add: idle_limit_def)
    show "quiet (snd (poll_once loop_init ?w1))"
      by (simp only: p snd_conv) (simp add: quiet_def empty_session_def)
  qed
  from one_variant_per_message [OF t] show ?thesis
    by (simp add: determine_response_def convert_commands_to_tool_calls_def append_history_def
        fresh_state_def str_of_nat.simps digit_char_def Let_def)
qed

text \<open>
  C3. With the session in place, the call never raises: it returns a message. Whatever
  exception the \<^verbatim>\<open>try\<close> body raises, in handing the message on, in a drain or in the
  conversion, the message returned has the content \<^verbatim>\<open>I encountered an error: \<close> followed
  by the text of the exception, and no tool calls. In particular, when the next outside
  call or queue read raises (the \<^verbatim>\<open>put\<close> of a user text, otherwise the first drain),
  that exception is the one reported.
\<close>

theorem exceptions_become_messages:
  assumes "is_initialized w" and "chat_session w \<noteq> None"
  shows "(\<exists>msg state'. fst (generate_next_message message state w) = Inr (msg, state')) \<and>
         (\<forall>e state'. fst (generate_next_message_try message state w) = Inl (e, state') \<longrightarrow>
            fst (generate_next_message message state w) =
              Inr (\<lparr>role = ''assistant'',
                     content = Some (''I encountered an error: '' @ exn_text e),
                     tool_calls = None, cost = 0\<rparr>, state')) \<and>
         (\<forall>e. next_fault w = Some e \<longrightarrow>
            (\<exists>state'. fst (generate_next_message message state w) =
              Inr (\<lparr>role = ''assistant'',
                     content = Some (''I encountered an error: '' @ exn_text e),
                     tool_calls = None, cost = 0\<rparr>, state')))"
proof (intro conjI allI impI)
  show "\<exists>msg state'. fst (generate_next_message message state w) = Inr (msg, state')"
    by (rule generate_next_message_returns)
next
  fix e state'
  assume "fst (generate_next_message_try message state w) = Inl (e, state')"
  then show "fst (generate_next_message message state w) =
      Inr (\<lparr>role = ''assistant'', content = Some (''I encountered an error: '' @ exn_text e),
             tool_calls = None, cost = 0\<rparr>, state')"
    by (simp add: generate_next_message_fst error_message_def)
next
  fix e
  assume "next_fault w = Some e"
  from first_fault_raises [OF assms this, of message state]
  show "\<exists>state'. fst (generate_next_message message state w) =
      Inr (\<lparr>role = ''assistant'', content = Some (''I encountered an error: '' @ exn_text e),
             tool_calls = None, cost = 0\<rparr>, state')"
    by (simp add: generate_next_message_fst error_message_def)
qed

theorem exceptions_become_messages_witness:
  "fst (generate_next_message (Tool (ToolMessage (Some ''order cancelled''))) None
          (running_adapter empty_session [Some (Exception ''connection lost'')])) =
     Inr (\<lparr>role = ''assistant'', content = Some ''I encountered an error: connection lost'',
            tool_calls = None, cost = 0\<rparr>,
          Some \<lparr>message_history = [ToolMsg (ToolMessage (Some ''order cancelled''))],
                awaiting_response = False, last_tool_calls = []\<rparr>)"
proof -
  let ?w = "running_adapter empty_session [Some (Exception ''connection lost'')]"
  let ?m = "Tool (ToolMessage (Some ''order cancelled''))"
  have i: "is_initialized ?w" and s: "chat_session ?w \<noteq> None"
    by (simp_all add: running_adapter_def)
  have t: "fst (generate_next_message_try ?m None ?w) =
             Inl (Exception ''connection lost'',
                  Some \<lparr>message_history = [ToolMsg (ToolMessage (Some ''order cancelled''))],
                        awaiting_response = False, last_tool_calls = []\<rparr>)"
    using first_fault_raises [OF i s, of "Exception ''connection lost''" ?m None]
    by (simp add: next_fault_def running_adapter_def append_history_def state_or_fresh_def
        fresh_state_def)
  from exceptions_become_messages [OF i s, of ?m None] t show ?thesis
    by simp
qed

text \<open>
  C2, as the code has it. When the initialization that the first user message starts
  fails, \<^verbatim>\<open>_initialize_fastworkflow\<close> passes the exception on to
  \<^verbatim>\<open>generate_next_message\<close>, and there the \<^verbatim>\<open>except Exception\<close> clause catches it: the
  call returns the error message with the text of the exception and no tool calls,
  together with the state before the message was appended, and the adapter stays
  uninitialized.
\<close>

theorem init_failure_becomes_message:
  assumes "\<not> is_initialized w" and "fst (initialize_fastworkflow (user_content um) w) = Inl e"
  shows "generate_next_message (User um) state w =
           (Inr (\<lparr>role = ''assistant'',
                   content = Some (''I encountered an error: '' @ exn_text e),
                   tool_calls = None, cost = 0\<rparr>, Some (state_or_fresh state)),
            snd (initialize_fastworkflow (user_content um) w)) \<and>
         \<not> is_initialized (snd (generate_next_message (User um) state w))"
proof -
  have "generate_next_message (User um) state w =
           (Inr (error_message e, Some (state_or_fresh state)),
            snd (initialize_fastworkflow (user_content um) w))"
    by (simp add: generate_next_message_def first_message_init_fails [OF assms])
  moreover have "\<not> is_initialized (snd (initialize_fastworkflow (user_content um) w))"
    by (rule initialize_fastworkflow_fails [OF assms])
  ultimately show ?thesis by (simp add: error_message_def)
qed

theorem init_failure_becomes_message_witness:
  "generate_next_message (User (UserMessage (Some ''hi''))) None
      (new_adapter fw_lib [None, None, Some (Exception ''No module named fastworkflow'')] [] []) =
     (Inr (\<lparr>role = ''assistant'',
             content = Some ''I encountered an error: No module named fastworkflow'',
             tool_calls = None, cost = 0\<rparr>,
           Some \<lparr>message_history = [], awaiting_response = False, last_tool_calls = []\<rparr>),
      \<lparr>is_initialized = False, chat_session = None, fastworkflow = None, installed = fw_lib,
       faults = [], trace_feed = [], output_feed = [],
       calls = [ImportFastworkflow, LoadEnv ''examples/fastworkflow.passwords.env'',
                LoadEnv ''examples/fastworkflow.env''],
       clock = 0\<rparr>)"
proof -
  let ?w = "new_adapter fw_lib [None, None, Some (Exception ''No module named fastworkflow'')] [] []"
  have n: "\<not> is_initialized ?w" by (simp add: new_adapter_def)
  have f: "initialize_fastworkflow (Some ''hi'') ?w =
             (Inl (Exception ''No module named fastworkflow''),
              \<lparr>is_initialized = False, chat_session = None, fastworkflow = None,
               installed = fw_lib, faults = [], trace_feed = [], output_feed = [],
               calls = [ImportFastworkflow, LoadEnv ''examples/fastworkflow.passwords.env'',
                        LoadEnv ''examples/fastworkflow.env''],
               clock = 0\<rparr>)"
    by (simp add: new_adapter_def initialize_fastworkflow_def seq_def ext_call_def
        fault_point_def modify_def suppress_def return_def)
  have "fst (initialize_fastworkflow (user_content (UserMessage (Some ''hi''))) ?w) =
          Inl (Exception ''No module named fastworkflow'')"
    by (simp add: f)
  from init_failure_becomes_message [OF n this, of None] show ?thesis
    by (simp add: f state_or_fresh_def fresh_state_def)
qed

theorem init_failure_is_not_propagated:
  "fst (initialize_fastworkflow (Some ''I want to cancel order #W123'')
          (new_adapter fw_lib
             [None, None, None, None, None, None, Some (Exception ''missing session assets'')]
             [] [])) =
     Inl (Exception ''missing session assets'') \<and>
   fst (generate_next_message (User (UserMessage (Some ''I want to cancel order #W123''))) None
          (new_adapter fw_lib
             [None, None, None, None, None, None, Some (Exception ''missing session assets'')]
             [] [])) =
     Inr (\<lparr>role = ''assistant'',
            content = Some ''I encountered an error: missing session assets'',
            tool_calls = None, cost = 0\<rparr>,
          Some \<lparr>message_history = [], awaiting_response = False, last_tool_calls = []\<rparr>)"
  by (simp add: generate_next_message_def generate_next_message_try_def handle_message_def
      new_adapter_def initialize_fastworkflow_def seq_def ext_call_def fault_point_def
      modify_def suppress_def return_def error_message_def fresh_state_def)




text \<open>
  C7. The interaction loop is a total function, so it always ends; started as
  \<^verbatim>\<open>generate_next_message\<close> starts it, it ends after at most \<^verbatim>\<open>max_num_steps\<close> = 5000
  iterations and as many sleeps, whether it returns or raises. It returns with
  \<^verbatim>\<open>idle_cycles\<close> at \<^verbatim>\<open>idle_limit\<close> = 150, one sleep short of its iterations, or after all
  5000 iterations with \<^verbatim>\<open>idle_cycles\<close> below the limit. An iteration that leaves
  \<^verbatim>\<open>idle_cycles\<close> at the limit or above ends the loop at once, any other is followed by a
  sleep and the rest of the loop; and an iteration sets \<^verbatim>\<open>idle_cycles\<close> to 0 when either
  drain gave something and adds one to it otherwise.
\<close>

theorem interaction_loop_terminates:
  "(case fst (interaction_loop max_num_steps loop_init w) of
      Inl e \<Rightarrow> clock (snd (interaction_loop max_num_steps loop_init w)) < clock w + max_num_steps
    | Inr lv \<Rightarrow>
        iteration lv \<le> max_num_steps \<and>
        clock (snd (interaction_loop max_num_steps loop_init w)) \<le> clock w + max_num_steps \<and>
        (idle_cycles lv = idle_limit \<and>
           Suc (clock (snd (interaction_loop max_num_steps loop_init w))) = clock w + iteration lv
         \<or> idle_cycles lv < idle_limit \<and> iteration lv = max_num_steps \<and>
           clock (snd (interaction_loop max_num_steps loop_init w)) = clock w + max_num_steps)) \<and>
   (\<forall>n lv w' lv'.
      fst (poll_once lv w') = Inr lv' \<and> idle_limit \<le> idle_cycles lv' \<longrightarrow>
      interaction_loop (Suc n) lv w' = (Inr lv', snd (poll_once lv w'))) \<and>
   (\<forall>n lv w' lv'.
      fst (poll_once lv w') = Inr lv' \<and> idle_cycles lv' < idle_limit \<longrightarrow>
      interaction_loop (Suc n) lv w' =
        interaction_loop n lv' (time_sleep (snd (poll_once lv w')))) \<and>
   (\<forall>lv w' lv'.
      fst (poll_once lv w') = Inr lv' \<longrightarrow>
      (\<exists>commands texts.
         fst (drain_command_trace 200 w') = Inr commands \<and>
         fst (drain_agent_outputs 200 (snd (drain_command_trace 200 w'))) = Inr texts \<and>
         idle_cycles lv' = (if commands = [] \<and> texts = [] then idle_cycles lv + 1 else 0))) \<and>
   max_num_steps = 5000 \<and> idle_limit = 150"
proof -
  have start: "idle_cycles loop_init < idle_limit"
    by (simp add: loop_init_def idle_limit_def)
  have zero: "iteration loop_init = 0"
    by (simp add: loop_init_def)
  have a: "case fst (interaction_loop max_num_steps loop_init w) of
      Inl e \<Rightarrow> clock (snd (interaction_loop max_num_steps loop_init w)) < clock w + max_num_steps
    | Inr lv \<Rightarrow>
        iteration lv \<le> max_num_steps \<and>
        clock (snd (interaction_loop max_num_steps loop_init w)) \<le> clock w + max_num_steps \<and>
        (idle_cycles lv = idle_limit \<and>
           Suc (clock (snd (interaction_loop max_num_steps loop_init w))) = clock w + iteration lv
         \<or> idle_cycles lv < idle_limit \<and> iteration lv = max_num_steps \<and>
           clock (snd (interaction_loop max_num_steps loop_init w)) = clock w + max_num_steps)"
    using interaction_loop_bound [OF start, of max_num_steps w]
    by (auto simp add: zero split: sum.splits)
  have b: "\<forall>n lv w' lv'.
      fst (poll_once lv w') = Inr lv' \<and> idle_limit \<le> idle_cycles lv' \<longrightarrow>
      interaction_loop (Suc n) lv w' = (Inr lv', snd (poll_once lv w'))"
    by (simp add: interaction_loop_Suc)
  have c: "\<forall>n lv w' lv'.
      fst (poll_once lv w') = Inr lv' \<and> idle_cycles lv' < idle_limit \<longrightarrow>
      interaction_loop (Suc n) lv w' =
        interaction_loop n lv' (time_sleep (snd (poll_once lv w')))"
    by (simp add: interaction_loop_Suc)
  have d: "\<forall>lv w' lv'.
      fst (poll_once lv w') = Inr lv' \<longrightarrow>
      (\<exists>commands texts.
         fst (drain_command_trace 200 w') = Inr commands \<and>
         fst (drain_agent_outputs 200 (snd (drain_command_trace 200 w'))) = Inr texts \<and>
         idle_cycles lv' = (if commands = [] \<and> texts = [] then idle_cycles lv + 1 else 0))"
  proof (intro allI impI)
    fix lv w' lv'
    assume "fst (poll_once lv w') = Inr lv'"
    from poll_once_drains [OF this] obtain commands texts where
      "fst (drain_command_trace 200 w') = Inr commands"
      "fst (drain_agent_outputs 200 (snd (drain_command_trace 200 w'))) = Inr texts"
      "lv' = account lv commands texts" by blast
    then show "\<exists>commands texts.
         fst (drain_command_trace 200 w') = Inr commands \<and>
         fst (drain_agent_outputs 200 (snd (drain_command_trace 200 w'))) = Inr texts \<and>
         idle_cycles lv' = (if commands = [] \<and> texts = [] then idle_cycles lv + 1 else 0)"
      by (intro exI [of _ commands] exI [of _ texts]) simp
  qed
  from a b c d show ?thesis
    by (simp only: max_num_steps_def [symmetric] idle_limit_def [symmetric] simp_thms)
qed

theorem interaction_loop_terminates_witness:
  "fst (interaction_loop max_num_steps loop_init (running_adapter empty_session [])) =
     Inr \<lparr>idle_cycles = 150, steps_taken = 0, all_commands = [], all_texts = [],
          iteration = 150\<rparr> \<and>
   clock (snd (interaction_loop max_num_steps loop_init (running_adapter empty_session []))) = 149 \<and>
   interaction_loop (Suc 10) (loop_init\<lparr>idle_cycles := 149\<rparr>)
       (running_adapter empty_session []) =
     (Inr (loop_init\<lparr>idle_cycles := 150, iteration := 1\<rparr>),
      running_adapter empty_session [])"
proof -
  let ?w = "running_adapter empty_session []"
  have q: "quiet ?w"
    by (simp add: quiet_def running_adapter_def empty_session_def)
  have l: "fst (interaction_loop max_num_steps loop_init ?w) =
             Inr \<lparr>idle_cycles = 150, steps_taken = 0, all_commands = [], all_texts = [],
                  iteration = 150\<rparr>"
    using quiet_interaction_loop [OF q, of loop_init max_num_steps]
    by (simp add: loop_init_def idle_limit_def max_num_steps_def)
  have p: "poll_once (loop_init\<lparr>idle_cycles := 149\<rparr>) ?w =
             (Inr (loop_init\<lparr>idle_cycles := 150, iteration := 1\<rparr>), ?w)"
    by (simp add: poll_once_def drain_command_trace_def drain_agent_outputs_def seq_def
        fault_point_def return_def running_adapter_def empty_session_def account_def
        loop_init_def)
  note t = interaction_loop_terminates [of ?w]
  from t have "case fst (interaction_loop max_num_steps loop_init ?w) of
      Inl e \<Rightarrow> clock (snd (interaction_loop max_num_steps loop_init ?w)) < clock ?w + max_num_steps
    | Inr lv \<Rightarrow>
        iteration lv \<le> max_num_steps \<and>
        clock (snd (interaction_loop max_num_steps loop_init ?w)) \<le> clock ?w + max_num_steps \<and>
        (idle_cycles lv = idle_limit \<and>
           Suc (clock (snd (interaction_loop max_num_steps loop_init ?w))) = clock ?w + iteration lv
         \<or> idle_cycles lv < idle_limit \<and> iteration lv = max_num_steps \<and>
           clock (snd (interaction_loop max_num_steps loop_init ?w)) = clock ?w + max_num_steps)"
    by (rule conjunct1)
  then have c: "clock (snd (interaction_loop max_num_steps loop_init ?w)) = 149"
    unfolding l by (simp add: idle_limit_def max_num_steps_def running_adapter_def)
  from t have "\<forall>n lv w' lv'.
      fst (poll_once lv w') = Inr lv' \<and> idle_limit \<le> idle_cycles lv' \<longrightarrow>
      interaction_loop (Suc n) lv w' = (Inr lv', snd (poll_once lv w'))"
    by (rule conjunct1 [OF conjunct2])
  then have "fst (poll_once (loop_init\<lparr>idle_cycles := 149\<rparr>) ?w) =
               Inr (loop_init\<lparr>idle_cycles := 150, iteration := 1\<rparr>) \<and>
             idle_limit \<le> idle_cycles (loop_init\<lparr>idle_cycles := 150, iteration := 1\<rparr>) \<longrightarrow>
             interaction_loop (Suc 10) (loop_init\<lparr>idle_cycles := 149\<rparr>) ?w =
               (Inr (loop_init\<lparr>idle_cycles := 150, iteration := 1\<rparr>),
                snd (poll_once (loop_init\<lparr>idle_cycles := 149\<rparr>) ?w))"
    by blast
  then have s: "interaction_loop (Suc 10) (loop_init\<lparr>idle_cycles := 149\<rparr>) ?w =
             (Inr (loop_init\<lparr>idle_cycles := 150, iteration := 1\<rparr>), ?w)"
    unfolding p by (simp add: idle_limit_def)
  from l c s show ?thesis by simp
qed

text \<open>
  C4. The claim does not hold as stated, in two ways. The code does not test for the
  direction runner to evaluator: it skips a record only when the record's direction equals
  the library's \<^verbatim>\<open>AGENT_TO_WORKFLOW\<close> (evaluator to runner), and it makes that comparison
  only when the library exposes \<^verbatim>\<open>CommandTraceEventDirection\<close> (lines 189-194). So a
  record that carries no direction is converted, and with a library that does not expose
  the enum a record tagged \<^verbatim>\<open>AGENT_TO_WORKFLOW\<close> is converted as well. Both calls below
  are first user messages; the runner enqueues one record, and the message returned
  carries it as a tool call.
\<close>

theorem untagged_and_echoed_records_are_converted:
  "fst (generate_next_message (User (UserMessage (Some ''Where is order #W123?''))) None
          (new_adapter fw_lib [] [[untagged_event]] [])) =
     Inr (\<lparr>role = ''assistant'', content = None,
            tool_calls = Some [\<lparr>id' = ''call_0'', name = ''get_order_details'',
              arguments = [(''order_id'', ''#W123'')], requestor = ''assistant''\<rparr>],
            cost = 0\<rparr>,
          Some \<lparr>message_history =
                  [UserMsg (UserMessage (Some ''Where is order #W123?'')),
                   AssistantMsg \<lparr>role = ''assistant'', content = None,
                     tool_calls = Some [\<lparr>id' = ''call_0'', name = ''get_order_details'',
                       arguments = [(''order_id'', ''#W123'')], requestor = ''assistant''\<rparr>],
                     cost = 0\<rparr>],
                awaiting_response = False,
                last_tool_calls = [\<lparr>id' = ''call_0'', name = ''get_order_details'',
                  arguments = [(''order_id'', ''#W123'')], requestor = ''assistant''\<rparr>]\<rparr>) \<and>
   direction untagged_event = None \<and>
   runner_to_evaluator_named untagged_event = False \<and>
   fst (generate_next_message (User (UserMessage (Some ''I want to cancel order #W123''))) None
          (new_adapter fw_lib_without_enum [] [[echo_event]] [])) =
     Inr (\<lparr>role = ''assistant'', content = None,
            tool_calls = Some [\<lparr>id' = ''call_0'', name = ''cancel_pending_order'',
              arguments = [(''order_id'', ''#W123'')], requestor = ''assistant''\<rparr>],
            cost = 0\<rparr>,
          Some \<lparr>message_history =
                  [UserMsg (UserMessage (Some ''I want to cancel order #W123'')),
                   AssistantMsg \<lparr>role = ''assistant'', content = None,
                     tool_calls = Some [\<lparr>id' = ''call_0'', name = ''cancel_pending_order'',
                       arguments = [(''order_id'', ''#W123'')], requestor = ''assistant''\<rparr>],
                     cost = 0\<rparr>],
                awaiting_response = False,
                last_tool_calls = [\<lparr>id' = ''call_0'', name = ''cancel_pending_order'',
                  arguments = [(''order_id'', ''#W123'')], requestor = ''assistant''\<rparr>]\<rparr>) \<and>
   direction echo_event = Some AGENT_TO_WORKFLOW \<and>
   runner_to_evaluator_named echo_event = False"
proof -
  let ?m1 = "User (UserMessage (Some ''Where is order #W123?''))"
  let ?n1 = "new_adapter fw_lib [] [[untagged_event]] []"
  let ?w1 = "\<lparr>is_initialized = True, chat_session = Some empty_session, fastworkflow = Some fw_lib,
     installed = fw_lib, faults = [], trace_feed = [[untagged_event]], output_feed = [],
     calls = [StartWorkflow ''Where is order #W123?'', NewChatSession,
       ClearWorkflowStack, FwInit, ImportFastworkflow,
       LoadEnv ''examples/fastworkflow.passwords.env'', LoadEnv ''examples/fastworkflow.env''],
     clock = 0\<rparr>"
  let ?lv1 = "\<lparr>idle_cycles = 0, steps_taken = 1,
     all_commands = [(''get_order_details'', [(''order_id'', ''#W123'')], PyNone, True)],
     all_texts = [], iteration = 1\<rparr>"
  let ?m2 = "User (UserMessage (Some ''I want to cancel order #W123''))"
  let ?n2 = "new_adapter fw_lib_without_enum [] [[echo_event]] []"
  let ?w2 = "\<lparr>is_initialized = True, chat_session = Some empty_session,
     fastworkflow = Some fw_lib_without_enum,
     installed = fw_lib_without_enum, faults = [], trace_feed = [[echo_event]], output_feed = [],
     calls = [StartWorkflow ''I want to cancel order #W123'', NewChatSession,
       ClearWorkflowStack, FwInit, ImportFastworkflow,
       LoadEnv ''examples/fastworkflow.passwords.env'', LoadEnv ''examples/fastworkflow.env''],
     clock = 0\<rparr>"
  let ?lv2 = "\<lparr>idle_cycles = 0, steps_taken = 1,
     all_commands = [(''cancel_pending_order'', [(''order_id'', ''#W123'')], PyNone, True)],
     all_texts = [], iteration = 1\<rparr>"
  have h1: "handle_message ?m1 (state_or_fresh None) ?n1 =
             (Inr (append_history [UserMsg (UserMessage (Some ''Where is order #W123?''))]
                fresh_state), ?w1)"
    by (simp add: handle_message_def new_adapter_def initialize_fastworkflow_def seq_def
        ext_call_def fault_point_def modify_def suppress_def return_def state_or_fresh_def)
  have p1: "poll_once loop_init ?w1 = (Inr ?lv1, ?w1\<lparr>trace_feed := []\<rparr>)"
    by (simp add: poll_once_def drain_command_trace_def drain_agent_outputs_def seq_def
        fault_point_def return_def empty_session_def untagged_event_def fw_lib_def account_def
        loop_init_def is_agent_to_workflow_def command_of_def)
  have g1: "fst (generate_next_message ?m1 None ?n1) =
             Inr (fst (determine_response ?lv1
                    (append_history [UserMsg (UserMessage (Some ''Where is order #W123?''))]
                       fresh_state)),
                  Some (snd (determine_response ?lv1
                    (append_history [UserMsg (UserMessage (Some ''Where is order #W123?''))]
                       fresh_state))))"
  proof (rule generate_next_message_then_quiet [OF h1])
    show "fst (poll_once loop_init ?w1) = Inr ?lv1"
      by (simp only: p1 fst_conv)
    show "idle_cycles ?lv1 < idle_limit"
      by (simp add: idle_limit_def)
    show "quiet (snd (poll_once loop_init ?w1))"
      by (simp only: p1 snd_conv) (simp add: quiet_def empty_session_def)
  qed
  have h2: "handle_message ?m2 (state_or_fresh None) ?n2 =
             (Inr (append_history [UserMsg (UserMessage (Some ''I want to cancel order #W123''))]
                fresh_state), ?w2)"
    by (simp add: handle_message_def new_adapter_def initialize_fastworkflow_def seq_def
        ext_call_def fault_point_def modify_def suppress_def return_def state_or_fresh_def)
  have p2: "poll_once loop_init ?w2 = (Inr ?lv2, ?w2\<lparr>trace_feed := []\<rparr>)"
    by (simp add: poll_once_def drain_command_trace_def drain_agent_outputs_def seq_def
        fault_point_def return_def empty_session_def echo_event_def fw_lib_without_enum_def
        account_def loop_init_def is_agent_to_workflow_def command_of_def)
  have g2: "fst (generate_next_message ?m2 None ?n2) =
             Inr (fst (determine_response ?lv2
                    (append_history [UserMsg (UserMessage (Some ''I want to cancel order #W123''))]
                       fresh_state)),
                  Some (snd (determine_response ?lv2
                    (append_history [UserMsg (UserMessage (Some ''I want to cancel order #W123''))]
                       fresh_state))))"
  proof (rule generate_next_message_then_quiet [OF h2])
    show "fst (poll_once loop_init ?w2) = Inr ?lv2"
      by (simp only: p2 fst_conv)
    show "idle_cycles ?lv2 < idle_limit"
      by (simp add: idle_limit_def)
    show "quiet (snd (poll_once loop_init ?w2))"
      by (simp only: p2 snd_conv) (simp add: quiet_def empty_session_def)
  qed
  have a: "fst (generate_next_message ?m1 None ?n1) =
     Inr (\<lparr>role = ''assistant'', content = None,
            tool_calls = Some [\<lparr>id' = ''call_0'', name = ''get_order_details'',
              arguments = [(''order_id'', ''#W123'')], requestor = ''assistant''\<rparr>],
            cost = 0\<rparr>,
          Some \<lparr>message_history =
                  [UserMsg (UserMessage (Some ''Where is order #W123?'')),
                   AssistantMsg \<lparr>role = ''assistant'', content = None,
                     tool_calls = Some [\<lparr>id' = ''call_0'', name = ''get_order_details'',
                       arguments = [(''order_id'', ''#W123'')], requestor = ''assistant''\<rparr>],
                     cost = 0\<rparr>],
                awaiting_response = False,
                last_tool_calls = [\<lparr>id' = ''call_0'', name = ''get_order_details'',
                  arguments = [(''order_id'', ''#W123'')], requestor = ''assistant''\<rparr>]\<rparr>)"
    unfolding g1
    by (simp add: determine_response_def convert_commands_to_tool_calls_def append_history_def
        fresh_state_def str_of_nat.simps digit_char_def Let_def)
  have b: "fst (generate_next_message ?m2 None ?n2) =
     Inr (\<lparr>role = ''assistant'', content = None,
            tool_calls = Some [\<lparr>id' = ''call_0'', name = ''cancel_pending_order'',
              arguments = [(''order_id'', ''#W123'')], requestor = ''assistant''\<rparr>],
            cost = 0\<rparr>,
          Some \<lparr>message_history =
                  [UserMsg (UserMessage (Some ''I want to cancel order #W123'')),
                   AssistantMsg \<lparr>role = ''assistant'', content = None,
                     tool_calls = Some [\<lparr>id' = ''call_0'', name = ''cancel_pending_order'',
                       arguments = [(''order_id'', ''#W123'')], requestor = ''assistant''\<rparr>],
                     cost = 0\<rparr>],
                awaiting_response = False,
                last_tool_calls = [\<lparr>id' = ''call_0'', name = ''cancel_pending_order'',
                  arguments = [(''order_id'', ''#W123'')], requestor = ''assistant''\<rparr>]\<rparr>)"
    unfolding g2
    by (simp add: determine_response_def convert_commands_to_tool_calls_def append_history_def
        fresh_state_def str_of_nat.simps digit_char_def Let_def)
  have c: "direction untagged_event = None" "runner_to_evaluator_named untagged_event = False"
    "direction echo_event = Some AGENT_TO_WORKFLOW" "runner_to_evaluator_named echo_event = False"
    by (simp_all add: untagged_event_def echo_event_def runner_to_evaluator_named_def)
  from a b c show ?thesis by (simp only: simp_thms)
qed

text \<open>
  C4, amended. The commands that a drain returns are, in queue order, exactly the drained
  records that are not recognised as evaluator to runner and whose name is a non-empty
  string, a record being recognised as evaluator to runner when the library exposes its
  direction enum and the record's direction is \<^verbatim>\<open>AGENT_TO_WORKFLOW\<close>; these records, and
  no others, become tool calls. When the library exposes the enum, no record tagged
  \<^verbatim>\<open>AGENT_TO_WORKFLOW\<close> is converted; when moreover every drained record carries a
  direction, the records converted are exactly those of the claim: direction
  \<^verbatim>\<open>WORKFLOW_TO_AGENT\<close> (runner to evaluator) and a non-empty string as name.
\<close>

theorem drained_records_filtered:
  assumes "is_initialized w" and "chat_session w \<noteq> None"
    and "fst (drain_command_trace max_drain w) = Inr commands"
  shows "commands =
           map command_of (filter (not_evaluator_to_runner_named (fastworkflow w))
             (take max_drain (pending_events w))) \<and>
         map name (convert_commands_to_tool_calls commands) =
           map (\<lambda>evt. the_str (command_name evt))
             (filter (not_evaluator_to_runner_named (fastworkflow w))
               (take max_drain (pending_events w))) \<and>
         (exposes_directions (fastworkflow w) \<longrightarrow>
            filter (\<lambda>evt. direction evt = Some AGENT_TO_WORKFLOW)
              (filter (not_evaluator_to_runner_named (fastworkflow w))
                (take max_drain (pending_events w))) = []) \<and>
         (exposes_directions (fastworkflow w) \<and>
          (\<forall>evt\<in>set (take max_drain (pending_events w)). direction evt \<noteq> None) \<longrightarrow>
            filter (not_evaluator_to_runner_named (fastworkflow w))
              (take max_drain (pending_events w)) =
            filter runner_to_evaluator_named (take max_drain (pending_events w)))"
proof -
  let ?drained = "take max_drain (pending_events w)"
  let ?f = "not_evaluator_to_runner_named (fastworkflow w)"
  have "commands = map command_of (filter (accepts (fastworkflow w)) ?drained)"
    by (rule drain_command_trace_eq [OF assms])
  then have c: "commands = map command_of (filter ?f ?drained)"
    by (simp only: filter_accepts_worded)
  have n: "map name (convert_commands_to_tool_calls commands) =
             map (\<lambda>evt. the_str (command_name evt)) (filter ?f ?drained)"
    by (simp add: convert_names c command_of_def comp_def)
  have e: "exposes_directions (fastworkflow w) \<longrightarrow>
             filter (\<lambda>evt. direction evt = Some AGENT_TO_WORKFLOW) (filter ?f ?drained) = []"
    by (simp add: filter_empty_conv not_evaluator_to_runner_named_def)
  have t: "exposes_directions (fastworkflow w) \<and>
           (\<forall>evt\<in>set ?drained. direction evt \<noteq> None) \<longrightarrow>
             filter ?f ?drained = filter runner_to_evaluator_named ?drained"
    using worded_typed [of "fastworkflow w" ?drained] by blast
  from c n e t show ?thesis by blast
qed

theorem drained_records_filtered_witness:
  "fst (drain_command_trace 200
     (running_adapter
        \<lparr>command_trace_queue = [echo_event, cancel_event, unnamed_event, untagged_event],
         command_output_queue = [], user_message_queue = []\<rparr> [])) =
     Inr [(''cancel_pending_order'', [(''order_id'', ''#W123'')], PyNone, True),
          (''get_order_details'', [(''order_id'', ''#W123'')], PyNone, True)] \<and>
   filter (not_evaluator_to_runner_named (Some fw_lib))
     [echo_event, cancel_event, unnamed_event, untagged_event] =
     [cancel_event, untagged_event] \<and>
   map name (convert_commands_to_tool_calls
     [(''cancel_pending_order'', [(''order_id'', ''#W123'')], PyNone, True),
      (''get_order_details'', [(''order_id'', ''#W123'')], PyNone, True)]) =
     [''cancel_pending_order'', ''get_order_details''] \<and>
   fst (drain_command_trace 200
     (running_adapter
        \<lparr>command_trace_queue = [echo_event, cancel_event, unnamed_event],
         command_output_queue = [], user_message_queue = []\<rparr> [])) =
     Inr [(''cancel_pending_order'', [(''order_id'', ''#W123'')], PyNone, True)] \<and>
   filter (not_evaluator_to_runner_named (Some fw_lib))
     [echo_event, cancel_event, unnamed_event] =
     filter runner_to_evaluator_named [echo_event, cancel_event, unnamed_event]"
proof -
  let ?q = "[echo_event, cancel_event, unnamed_event, untagged_event]"
  let ?w = "running_adapter
        \<lparr>command_trace_queue = ?q, command_output_queue = [], user_message_queue = []\<rparr> []"
  let ?c = "[(''cancel_pending_order'', [(''order_id'', ''#W123'')], PyNone, True),
          (''get_order_details'', [(''order_id'', ''#W123'')], PyNone, True)]"
  let ?q' = "[echo_event, cancel_event, unnamed_event]"
  let ?w' = "running_adapter
        \<lparr>command_trace_queue = ?q', command_output_queue = [], user_message_queue = []\<rparr> []"
  let ?c' = "[(''cancel_pending_order'', [(''order_id'', ''#W123'')], PyNone, True)]"
  have p: "take 200 (pending_events ?w) = ?q"
    by (simp add: pending_events_def running_adapter_def)
  have p': "take 200 (pending_events ?w') = ?q'"
    by (simp add: pending_events_def running_adapter_def)
  have d: "fst (drain_command_trace 200 ?w) = Inr ?c"
    by (simp add: drain_command_trace_def running_adapter_def fault_point_def
        echo_event_def cancel_event_def unnamed_event_def untagged_event_def fw_lib_def
        is_agent_to_workflow_def command_of_def)
  have d': "fst (drain_command_trace 200 ?w') = Inr ?c'"
    by (simp add: drain_command_trace_def running_adapter_def fault_point_def
        echo_event_def cancel_event_def unnamed_event_def fw_lib_def
        is_agent_to_workflow_def command_of_def)
  have i: "is_initialized ?w" "chat_session ?w \<noteq> None"
    and i': "is_initialized ?w'" "chat_session ?w' \<noteq> None"
    by (simp_all add: running_adapter_def)
  have fl: "fastworkflow ?w = Some fw_lib" "fastworkflow ?w' = Some fw_lib"
    by (simp_all add: running_adapter_def)
  have x: "exposes_directions (Some fw_lib)"
    by (simp add: exposes_directions_def fw_lib_def)
  have typed: "\<forall>evt\<in>set ?q'. direction evt \<noteq> None"
    by (simp add: echo_event_def cancel_event_def unnamed_event_def)
  note t = drained_records_filtered [OF i d, unfolded p fl]
  note t' = drained_records_filtered [OF i' d', unfolded p' fl]
  from t have c: "?c = map command_of (filter (not_evaluator_to_runner_named (Some fw_lib)) ?q)"
    by blast
  have f: "filter (not_evaluator_to_runner_named (Some fw_lib)) ?q = [cancel_event, untagged_event]"
    by (simp add: not_evaluator_to_runner_named_def x echo_event_def cancel_event_def
        unnamed_event_def untagged_event_def)
  from t have "map name (convert_commands_to_tool_calls ?c) =
          map (\<lambda>evt. the_str (command_name evt))
            (filter (not_evaluator_to_runner_named (Some fw_lib)) ?q)"
    by blast
  then have n: "map name (convert_commands_to_tool_calls ?c) =
      [''cancel_pending_order'', ''get_order_details'']"
    unfolding f by (simp add: cancel_event_def untagged_event_def)
  from t' x typed have f': "filter (not_evaluator_to_runner_named (Some fw_lib)) ?q' =
     filter runner_to_evaluator_named ?q'"
    by blast
  from d f n d' f' show ?thesis by (simp only: simp_thms)
qed

text \<open>
  C5. When a call has collected commands, the message it returns carries one tool call
  for each of them and no content. The records that the drains of the loop have read
  are a front part of what the runner enqueues, in the order of the queue, and the
  commands collected are those of them that pass the filter, in that order, each
  iteration appending behind the earlier ones. The tool calls carry the names of these
  records in that order, the ids \<^verbatim>\<open>call_0\<close>, \<^verbatim>\<open>call_1\<close>, ... by position, and the
  requestor \<^verbatim>\<open>assistant\<close>. This holds for every call, whatever the adapter and the
  state have been through before, so the ids of every message start again at
  \<^verbatim>\<open>call_0\<close>.
\<close>

theorem tool_calls_follow_batch_order:
  assumes "fst (generate_next_message message state w) = Inr (msg, state')"
    and "collected message state w = Some lv" and "all_commands lv \<noteq> []"
  shows "\<exists>D rest calls.
           trace_stream (snd (handle_message message (state_or_fresh state) w)) = D @ rest \<and>
           all_commands lv =
             map command_of
               (filter (accepts (fastworkflow (snd (handle_message message (state_or_fresh state) w))))
                  D) \<and>
           tool_calls msg = Some calls \<and> content msg = None \<and>
           calls = map (\<lambda>(i, c). tool_call_at i c) (enumerate 0 (all_commands lv)) \<and>
           length calls = length (all_commands lv) \<and>
           map name calls =
             map (\<lambda>evt. the_str (command_name evt))
               (filter (accepts (fastworkflow (snd (handle_message message (state_or_fresh state) w))))
                  D) \<and>
           map id' calls = map (\<lambda>i. ''call_'' @ str_of_nat i) [0..<length calls] \<and>
           map requestor calls = replicate (length calls) ''assistant''"
proof -
  let ?w1 = "snd (handle_message message (state_or_fresh state) w)"
  let ?calls = "convert_commands_to_tool_calls (all_commands lv)"
  from collected_stream [OF assms(2)] obtain D rest where
    s: "trace_stream ?w1 = D @ rest" and
    c: "all_commands lv = map command_of (filter (accepts (fastworkflow ?w1)) D)"
    by blast
  from collected_message [OF assms(2)] assms(1)
  have m: "msg = fst (determine_response lv
                        (append_history (inbound message) (state_or_fresh state)))"
    by simp
  have t: "tool_calls msg = Some ?calls"
    unfolding m using assms(3) by (simp add: determine_response_tool_calls)
  have "?calls \<noteq> []"
    using assms(3) by (simp add: convert_nil_iff)
  then have n: "content msg = None"
    unfolding m using assms(3) by (simp add: determine_response_def Let_def)
  have e: "?calls = map (\<lambda>(i, c). tool_call_at i c) (enumerate 0 (all_commands lv))"
    by (rule convert_eq)
  have l: "length ?calls = length (all_commands lv)"
    by (rule convert_length)
  have "map name ?calls = map fst (all_commands lv)"
    by (rule convert_names)
  then have nm: "map name ?calls =
      map (\<lambda>evt. the_str (command_name evt)) (filter (accepts (fastworkflow ?w1)) D)"
    by (simp add: c command_of_def comp_def)
  have i: "map id' ?calls = map (\<lambda>i. ''call_'' @ str_of_nat i) [0..<length ?calls]"
    by (simp only: convert_ids l)
  have r: "map requestor ?calls = replicate (length ?calls) ''assistant''"
    by (simp only: convert_requestor l)
  from s c t n e l nm i r show ?thesis by blast
qed

theorem tool_calls_follow_batch_order_witness:
  "fst (generate_next_message (User (UserMessage (Some ''I want to cancel order #W123''))) None
          (new_adapter fw_lib [] [[lookup_event, echo_event, details_event], [cancel_event]] [])) =
     Inr (\<lparr>role = ''assistant'', content = None,
            tool_calls = Some
              [\<lparr>id' = ''call_0'', name = ''find_user_id_by_email'',
                arguments = [(''email'', ''a@b.c'')], requestor = ''assistant''\<rparr>,
               \<lparr>id' = ''call_1'', name = ''get_order_details'',
                arguments = [(''order_id'', ''#W123'')], requestor = ''assistant''\<rparr>,
               \<lparr>id' = ''call_2'', name = ''cancel_pending_order'',
                arguments = [(''order_id'', ''#W123'')], requestor = ''assistant''\<rparr>],
            cost = 0\<rparr>,
          Some \<lparr>message_history =
                  [UserMsg (UserMessage (Some ''I want to cancel order #W123'')),
                   AssistantMsg \<lparr>role = ''assistant'', content = None,
                     tool_calls = Some
                       [\<lparr>id' = ''call_0'', name = ''find_user_id_by_email'',
                         arguments = [(''email'', ''a@b.c'')], requestor = ''assistant''\<rparr>,
                        \<lparr>id' = ''call_1'', name = ''get_order_details'',
                         arguments = [(''order_id'', ''#W123'')], requestor = ''assistant''\<rparr>,
                        \<lparr>id' = ''call_2'', name = ''cancel_pending_order'',
                         arguments = [(''order_id'', ''#W123'')], requestor = ''assistant''\<rparr>],
                     cost = 0\<rparr>],
                awaiting_response = False,
                last_tool_calls =
                  [\<lparr>id' = ''call_0'', name = ''find_user_id_by_email'',
                    arguments = [(''email'', ''a@b.c'')], requestor = ''assistant''\<rparr>,
                   \<lparr>id' = ''call_1'', name = ''get_order_details'',
                    arguments = [(''order_id'', ''#W123'')], requestor = ''assistant''\<rparr>,
                   \<lparr>id' = ''call_2'', name = ''cancel_pending_order'',
                    arguments = [(''order_id'', ''#W123'')], requestor = ''assistant''\<rparr>]\<rparr>) \<and>
   map name
     [\<lparr>id' = ''call_0'', name = ''find_user_id_by_email'',
       arguments = [(''email'', ''a@b.c'')], requestor = ''assistant''\<rparr>,
      \<lparr>id' = ''call_1'', name = ''get_order_details'',
       arguments = [(''order_id'', ''#W123'')], requestor = ''assistant''\<rparr>,
      \<lparr>id' = ''call_2'', name = ''cancel_pending_order'',
       arguments = [(''order_id'', ''#W123'')], requestor = ''assistant''\<rparr>] =
     map (\<lambda>evt. the_str (command_name evt)) [lookup_event, details_event, cancel_event] \<and>
   trace_stream (snd (handle_message (User (UserMessage (Some ''I want to cancel order #W123'')))
       (state_or_fresh None)
       (new_adapter fw_lib [] [[lookup_event, echo_event, details_event], [cancel_event]] []))) =
     [lookup_event, echo_event, details_event, cancel_event]"
proof -
  let ?um = "UserMessage (Some ''I want to cancel order #W123'')"
  let ?m = "User ?um"
  let ?w = "new_adapter fw_lib [] [[lookup_event, echo_event, details_event], [cancel_event]] []"
  let ?w1 = "\<lparr>is_initialized = True, chat_session = Some empty_session, fastworkflow = Some fw_lib,
     installed = fw_lib, faults = [],
     trace_feed = [[lookup_event, echo_event, details_event], [cancel_event]], output_feed = [],
     calls = [StartWorkflow ''I want to cancel order #W123'', NewChatSession,
       ClearWorkflowStack, FwInit, ImportFastworkflow,
       LoadEnv ''examples/fastworkflow.passwords.env'', LoadEnv ''examples/fastworkflow.env''],
     clock = 0\<rparr>"
  let ?c1 = "[(''find_user_id_by_email'', [(''email'', ''a@b.c'')], PyNone, True),
             (''get_order_details'', [(''order_id'', ''#W123'')], PyNone, True)]"
  let ?c2 = "?c1 @ [(''cancel_pending_order'', [(''order_id'', ''#W123'')], PyNone, True)]"
  let ?lv1 = "\<lparr>idle_cycles = 0, steps_taken = 1, all_commands = ?c1,
     all_texts = [], iteration = 1\<rparr>"
  let ?lv2 = "\<lparr>idle_cycles = 0, steps_taken = 2, all_commands = ?c2,
     all_texts = [], iteration = 2\<rparr>"
  let ?lv = "?lv2\<lparr>idle_cycles := idle_limit,
                  iteration := iteration ?lv2 + (idle_limit - idle_cycles ?lv2)\<rparr>"
  let ?s2 = "append_history [UserMsg ?um] fresh_state"
  have h: "handle_message ?m (state_or_fresh None) ?w = (Inr ?s2, ?w1)"
    by (simp add: handle_message_def new_adapter_def initialize_fastworkflow_def seq_def
        ext_call_def fault_point_def modify_def suppress_def return_def state_or_fresh_def)
  have p1: "poll_once loop_init ?w1 = (Inr ?lv1, ?w1\<lparr>trace_feed := [[cancel_event]]\<rparr>)"
    by (simp add: poll_once_def drain_command_trace_def drain_agent_outputs_def seq_def
        fault_point_def return_def empty_session_def lookup_event_def echo_event_def
        details_event_def fw_lib_def account_def loop_init_def is_agent_to_workflow_def
        command_of_def)
  have p2: "poll_once ?lv1 (time_sleep (?w1\<lparr>trace_feed := [[cancel_event]]\<rparr>)) =
              (Inr ?lv2, ?w1\<lparr>trace_feed := [], clock := 1\<rparr>)"
    by (simp add: poll_once_def drain_command_trace_def drain_agent_outputs_def seq_def
        fault_point_def return_def empty_session_def cancel_event_def time_sleep_def
        fw_lib_def account_def is_agent_to_workflow_def command_of_def)
  have c: "collected ?m None ?w = Some ?lv"
  proof (rule collected_two_polls_then_quiet [OF h p1])
    show "idle_cycles ?lv1 < idle_limit"
      by (simp add: idle_limit_def)
    show "fst (poll_once ?lv1 (time_sleep (?w1\<lparr>trace_feed := [[cancel_event]]\<rparr>))) = Inr ?lv2"
      by (simp only: p2 fst_conv)
    show "idle_cycles ?lv2 < idle_limit"
      by (simp add: idle_limit_def)
    show "quiet (snd (poll_once ?lv1 (time_sleep (?w1\<lparr>trace_feed := [[cancel_event]]\<rparr>))))"
      by (simp only: p2 snd_conv) (simp add: quiet_def empty_session_def)
  qed
  have g: "fst (generate_next_message ?m None ?w) =
             Inr (fst (determine_response ?lv (append_history (inbound ?m) (state_or_fresh None))),
                  Some (snd (determine_response ?lv
                    (append_history (inbound ?m) (state_or_fresh None)))))"
    by (rule collected_message [OF c])
  have ne: "all_commands ?lv \<noteq> []"
    by simp
  from tool_calls_follow_batch_order [OF g c ne] obtain D rest calls where
    t: "tool_calls (fst (determine_response ?lv
          (append_history (inbound ?m) (state_or_fresh None)))) = Some calls" and
    e: "calls = map (\<lambda>(i, c). tool_call_at i c) (enumerate 0 (all_commands ?lv))"
    by blast
  have calls: "calls =
     [\<lparr>id' = ''call_0'', name = ''find_user_id_by_email'',
       arguments = [(''email'', ''a@b.c'')], requestor = ''assistant''\<rparr>,
      \<lparr>id' = ''call_1'', name = ''get_order_details'',
       arguments = [(''order_id'', ''#W123'')], requestor = ''assistant''\<rparr>,
      \<lparr>id' = ''call_2'', name = ''cancel_pending_order'',
       arguments = [(''order_id'', ''#W123'')], requestor = ''assistant''\<rparr>]"
    unfolding e by (simp add: tool_call_at_def str_of_nat.simps digit_char_def)
  have a: "fst (generate_next_message ?m None ?w) =
     Inr (\<lparr>role = ''assistant'', content = None, tool_calls = Some calls, cost = 0\<rparr>,
          Some \<lparr>message_history =
                  [UserMsg ?um,
                   AssistantMsg \<lparr>role = ''assistant'', content = None,
                     tool_calls = Some calls, cost = 0\<rparr>],
                awaiting_response = False, last_tool_calls = calls\<rparr>)"
    unfolding g calls
    by (simp add: determine_response_def convert_commands_to_tool_calls_def append_history_def
        fresh_state_def state_or_fresh_def str_of_nat.simps digit_char_def Let_def)
  have b: "map name calls =
      map (\<lambda>evt. the_str (command_name evt)) [lookup_event, details_event, cancel_event]"
    unfolding calls by (simp add: lookup_event_def details_event_def cancel_event_def)
  have s: "trace_stream (snd (handle_message ?m (state_or_fresh None) ?w)) =
      [lookup_event, echo_event, details_event, cancel_event]"
    by (simp only: h snd_conv) (simp add: trace_stream_def empty_session_def)
  from a b s show ?thesis
    unfolding calls by (simp only: simp_thms)
qed

text \<open>
  C8. \<^verbatim>\<open>reset\<close> and \<^verbatim>\<open>stop\<close> never raise, leave \<^verbatim>\<open>is_initialized\<close> false and do not
  touch the state of the caller, but they do not always clear the session reference.
  The assignment \<^verbatim>\<open>self.chat_session = None\<close> (line 425) stands inside the
  \<^verbatim>\<open>with contextlib.suppress(Exception)\<close> block, behind the call of
  \<^verbatim>\<open>clear_workflow_stack\<close> (line 423): when that call raises, the block is left and the
  assignment is skipped. On an initialized adapter whose library raises in
  \<^verbatim>\<open>clear_workflow_stack\<close>, \<^verbatim>\<open>reset\<close> and \<^verbatim>\<open>stop\<close> return with the flag cleared and
  the session still referenced. In \<^verbatim>\<open>_initialize_fastworkflow\<close> (lines 122-123) the
  same call is suppressed on its own.
\<close>

theorem reset_keeps_session_when_clear_raises:
  "reset (running_adapter empty_session [Some (Exception ''workflow stack is locked'')]) =
     (Inr (),
      \<lparr>is_initialized = False, chat_session = Some empty_session, fastworkflow = Some fw_lib,
       installed = fw_lib, faults = [], trace_feed = [], output_feed = [],
       calls = [ClearWorkflowStack], clock = 0\<rparr>) \<and>
   stop None (Some fresh_state)
     (running_adapter empty_session [Some (Exception ''workflow stack is locked'')]) =
     ((Inr (), Some fresh_state),
      \<lparr>is_initialized = False, chat_session = Some empty_session, fastworkflow = Some fw_lib,
       installed = fw_lib, faults = [], trace_feed = [], output_feed = [],
       calls = [ClearWorkflowStack], clock = 0\<rparr>) \<and>
   reset (running_adapter empty_session []) =
     (Inr (),
      \<lparr>is_initialized = False, chat_session = None, fastworkflow = Some fw_lib,
       installed = fw_lib, faults = [], trace_feed = [], output_feed = [],
       calls = [ClearWorkflowStack], clock = 0\<rparr>)"
  by (simp add: stop_def reset_def seq_def suppress_def modify_def ext_call_def
      fault_point_def running_adapter_def)

text \<open>
  C9. The claim does not hold as stated, in two ways. An initialization that fails leaves
  the adapter uninitialized (\<^verbatim>\<open>is_initialized\<close> is set by the last statement of
  \<^verbatim>\<open>_initialize_fastworkflow\<close>, line 141), so the next user message runs the
  initialization again with no reset in between: below, starting the workflow raises
  during the first message, and the two messages create two sessions. And the text is
  passed on only under \<^verbatim>\<open>if initial_message:\<close> (line 131): for a first message whose
  content is the empty string or \<^verbatim>\<open>None\<close> the session is created and no workflow is
  started.
\<close>

theorem failed_initialization_is_repeated:
  "calls (snd (conversation
            [User (UserMessage (Some ''hi'')), User (UserMessage (Some ''hello again''))] None
            (new_adapter fw_lib
               [None, None, None, None, None, None, Some (Exception ''workflow not found'')]
               [] []))) =
     [StartWorkflow ''hello again'', NewChatSession, ClearWorkflowStack, FwInit,
      ImportFastworkflow, LoadEnv ''examples/fastworkflow.passwords.env'',
      LoadEnv ''examples/fastworkflow.env'',
      StartWorkflow ''hi'', NewChatSession, ClearWorkflowStack, FwInit,
      ImportFastworkflow, LoadEnv ''examples/fastworkflow.passwords.env'',
      LoadEnv ''examples/fastworkflow.env''] \<and>
   calls (snd (generate_next_message (User (UserMessage (Some ''''))) None
                 (new_adapter fw_lib [] [] []))) =
     [NewChatSession, ClearWorkflowStack, FwInit, ImportFastworkflow,
      LoadEnv ''examples/fastworkflow.passwords.env'', LoadEnv ''examples/fastworkflow.env''] \<and>
   calls (snd (generate_next_message (User (UserMessage None)) None
                 (new_adapter fw_lib [] [] []))) =
     [NewChatSession, ClearWorkflowStack, FwInit, ImportFastworkflow,
      LoadEnv ''examples/fastworkflow.passwords.env'', LoadEnv ''examples/fastworkflow.env'']"
proof -
  let ?e = "Exception ''workflow not found''"
  let ?w0 = "new_adapter fw_lib [None, None, None, None, None, None, Some ?e] [] []"
  let ?n = "new_adapter fw_lib [] [] []"
  let ?u1 = "UserMessage (Some ''hi'')"
  let ?u2 = "UserMessage (Some ''hello again'')"
  let ?w1 = "\<lparr>is_initialized = False, chat_session = Some empty_session,
     fastworkflow = Some fw_lib, installed = fw_lib, faults = [], trace_feed = [],
     output_feed = [],
     calls = [StartWorkflow ''hi'', NewChatSession, ClearWorkflowStack, FwInit,
       ImportFastworkflow, LoadEnv ''examples/fastworkflow.passwords.env'',
       LoadEnv ''examples/fastworkflow.env''],
     clock = 0\<rparr>"
  have i1: "initialize_fastworkflow (user_content ?u1) ?w0 = (Inl ?e, ?w1)"
    by (simp add: new_adapter_def initialize_fastworkflow_def seq_def ext_call_def
        fault_point_def modify_def suppress_def return_def)
  have u0: "\<not> is_initialized ?w0"
    by (simp add: new_adapter_def)
  have g1: "generate_next_message (User ?u1) None ?w0 =
              (Inr (error_message ?e, Some (state_or_fresh None)), ?w1)"
    using generate_next_message_init_fails [of ?w0 ?u1 ?e None] u0 i1
    by (simp only: fst_conv snd_conv simp_thms)
  have "conversation [User ?u1, User ?u2] None ?w0 =
          conversation [User ?u2] (Some (state_or_fresh None)) ?w1"
    by (rule conversation_Cons [OF g1])
  then have c: "snd (conversation [User ?u1, User ?u2] None ?w0) =
          snd (generate_next_message (User ?u2) (Some (state_or_fresh None)) ?w1)"
    by (simp only: conversation_single)
  have u1: "\<not> is_initialized ?w1"
    by simp
  have i2: "fst (initialize_fastworkflow (user_content ?u2) ?w1) = Inr ()"
    by (simp add: initialize_fastworkflow_def seq_def ext_call_def
        fault_point_def modify_def suppress_def return_def)
  from generate_next_message_first [OF u1 i2, of "Some (state_or_fresh None)"]
  have "calls (snd (generate_next_message (User ?u2) (Some (state_or_fresh None)) ?w1)) =
          init_calls (user_content ?u2) @ calls ?w1"
    by blast
  then have a: "calls (snd (conversation [User ?u1, User ?u2] None ?w0)) =
     [StartWorkflow ''hello again'', NewChatSession, ClearWorkflowStack, FwInit,
      ImportFastworkflow, LoadEnv ''examples/fastworkflow.passwords.env'',
      LoadEnv ''examples/fastworkflow.env'',
      StartWorkflow ''hi'', NewChatSession, ClearWorkflowStack, FwInit,
      ImportFastworkflow, LoadEnv ''examples/fastworkflow.passwords.env'',
      LoadEnv ''examples/fastworkflow.env'']"
    unfolding c by (simp add: init_calls_def start_calls_def)
  have un: "\<not> is_initialized ?n"
    by (simp add: new_adapter_def)
  have i3: "fst (initialize_fastworkflow (user_content (UserMessage (Some ''''))) ?n) = Inr ()"
    by (simp add: new_adapter_def initialize_fastworkflow_def seq_def ext_call_def
        fault_point_def modify_def suppress_def return_def)
  have i4: "fst (initialize_fastworkflow (user_content (UserMessage None)) ?n) = Inr ()"
    by (simp add: new_adapter_def initialize_fastworkflow_def seq_def ext_call_def
        fault_point_def modify_def suppress_def return_def)
  from generate_next_message_first [OF un i3, of None]
  have b: "calls (snd (generate_next_message (User (UserMessage (Some ''''))) None ?n)) =
     [NewChatSession, ClearWorkflowStack, FwInit, ImportFastworkflow,
      LoadEnv ''examples/fastworkflow.passwords.env'', LoadEnv ''examples/fastworkflow.env'']"
    by (simp add: init_calls_def start_calls_def new_adapter_def)
  from generate_next_message_first [OF un i4, of None]
  have d: "calls (snd (generate_next_message (User (UserMessage None)) None ?n)) =
     [NewChatSession, ClearWorkflowStack, FwInit, ImportFastworkflow,
      LoadEnv ''examples/fastworkflow.passwords.env'', LoadEnv ''examples/fastworkflow.env'']"
    by (simp add: init_calls_def start_calls_def new_adapter_def)
  from a b d show ?thesis by (simp only: simp_thms)
qed

text \<open>
  C9, amended. On an adapter that is not initialized, handing on a user message is one
  run of \<^verbatim>\<open>_initialize_fastworkflow\<close> with the content of the message. When that run
  succeeds, the call has made the calls of one initialization and no other: the two
  environment files, the import, \<^verbatim>\<open>fastworkflow.init\<close>, the clearing of the workflow
  stack, one session, and the start of the workflow with the text when the text is a
  non-empty string, and none when it is empty or \<^verbatim>\<open>None\<close>; the adapter is initialized
  afterwards. When that run fails, the adapter is left as the failed run left it, not
  initialized, so that the next user message initializes again. On an initialized
  adapter a call makes no call of the initialization: a user message is put into the
  input sink, any other message makes no outside call, and the adapter stays
  initialized; so through any run of calls on an initialized adapter the only outside
  calls are the \<^verbatim>\<open>put\<close>s of the user texts, and a run of calls that begins with a
  successful first user message makes the calls of that one initialization and then
  only \<^verbatim>\<open>put\<close>s.
\<close>

theorem initialized_once:
  "(\<not> is_initialized w \<longrightarrow>
      snd (handle_message (User um) state0 w) =
        snd (initialize_fastworkflow (user_content um) w)) \<and>
   (\<not> is_initialized w \<and> fst (initialize_fastworkflow (user_content um) w) = Inr () \<longrightarrow>
      is_initialized (snd (generate_next_message (User um) state w)) \<and>
      chat_session (snd (generate_next_message (User um) state w)) \<noteq> None \<and>
      calls (snd (generate_next_message (User um) state w)) =
        (case user_content um of
           None \<Rightarrow> []
         | Some t \<Rightarrow> if t \<noteq> [] then [StartWorkflow t] else []) @
        [NewChatSession, ClearWorkflowStack, FwInit, ImportFastworkflow,
         LoadEnv ''examples/fastworkflow.passwords.env'',
         LoadEnv ''examples/fastworkflow.env''] @ calls w) \<and>
   (\<not> is_initialized w \<and> fst (initialize_fastworkflow (user_content um) w) = Inl e \<longrightarrow>
      fst (generate_next_message (User um) state w) =
        Inr (error_message e, Some (state_or_fresh state)) \<and>
      snd (generate_next_message (User um) state w) =
        snd (initialize_fastworkflow (user_content um) w) \<and>
      \<not> is_initialized (snd (generate_next_message (User um) state w))) \<and>
   (is_initialized w \<and> chat_session w \<noteq> None \<longrightarrow>
      is_initialized (snd (generate_next_message message state w)) \<and>
      chat_session (snd (generate_next_message message state w)) \<noteq> None \<and>
      calls (snd (generate_next_message message state w)) =
        (case message of User um' \<Rightarrow> [Put (user_content um')] | _ \<Rightarrow> []) @ calls w) \<and>
   (is_initialized w \<and> chat_session w \<noteq> None \<longrightarrow>
      is_initialized (snd (conversation messages state w)) \<and>
      calls (snd (conversation messages state w)) = forwarded messages @ calls w) \<and>
   (\<not> is_initialized w \<and> fst (initialize_fastworkflow (user_content um) w) = Inr () \<longrightarrow>
      is_initialized (snd (conversation (User um # messages) state w)) \<and>
      calls (snd (conversation (User um # messages) state w)) =
        forwarded messages @
        (case user_content um of
           None \<Rightarrow> []
         | Some t \<Rightarrow> if t \<noteq> [] then [StartWorkflow t] else []) @
        [NewChatSession, ClearWorkflowStack, FwInit, ImportFastworkflow,
         LoadEnv ''examples/fastworkflow.passwords.env'',
         LoadEnv ''examples/fastworkflow.env''] @ calls w)"
proof -
  have d: "\<not> is_initialized w \<and> fst (initialize_fastworkflow (user_content um) w) = Inr () \<longrightarrow>
      is_initialized (snd (conversation (User um # messages) state w)) \<and>
      calls (snd (conversation (User um # messages) state w)) =
        forwarded messages @
        (case user_content um of
           None \<Rightarrow> []
         | Some t \<Rightarrow> if t \<noteq> [] then [StartWorkflow t] else []) @
        [NewChatSession, ClearWorkflowStack, FwInit, ImportFastworkflow,
         LoadEnv ''examples/fastworkflow.passwords.env'',
         LoadEnv ''examples/fastworkflow.env''] @ calls w"
    using conversation_first [of w um messages state]
    by (simp add: init_calls_def start_calls_def)
  have a: "\<not> is_initialized w \<longrightarrow>
      snd (handle_message (User um) state0 w) =
        snd (initialize_fastworkflow (user_content um) w)"
    using handle_message_first(2) [of w um state0] by blast
  have b: "\<not> is_initialized w \<and> fst (initialize_fastworkflow (user_content um) w) = Inr () \<longrightarrow>
      is_initialized (snd (generate_next_message (User um) state w)) \<and>
      chat_session (snd (generate_next_message (User um) state w)) \<noteq> None \<and>
      calls (snd (generate_next_message (User um) state w)) =
        (case user_content um of
           None \<Rightarrow> []
         | Some t \<Rightarrow> if t \<noteq> [] then [StartWorkflow t] else []) @
        [NewChatSession, ClearWorkflowStack, FwInit, ImportFastworkflow,
         LoadEnv ''examples/fastworkflow.passwords.env'',
         LoadEnv ''examples/fastworkflow.env''] @ calls w"
    using generate_next_message_first [of w um state]
    by (simp add: init_calls_def start_calls_def)
  have c: "\<not> is_initialized w \<and> fst (initialize_fastworkflow (user_content um) w) = Inl e \<longrightarrow>
      fst (generate_next_message (User um) state w) =
        Inr (error_message e, Some (state_or_fresh state)) \<and>
      snd (generate_next_message (User um) state w) =
        snd (initialize_fastworkflow (user_content um) w) \<and>
      \<not> is_initialized (snd (generate_next_message (User um) state w))"
    using generate_next_message_init_fails [of w um e state]
      initialize_fastworkflow_fails [of w "user_content um" e]
    by simp
  from a b c d generate_next_message_running [of w message state]
    conversation_running [of w messages state]
  show ?thesis by blast
qed

theorem initialized_once_witness:
  "calls (snd (generate_next_message (User (UserMessage (Some ''I want to cancel order #W123'')))
                 None (new_adapter fw_lib [] [] []))) =
     [StartWorkflow ''I want to cancel order #W123'', NewChatSession, ClearWorkflowStack,
      FwInit, ImportFastworkflow, LoadEnv ''examples/fastworkflow.passwords.env'',
      LoadEnv ''examples/fastworkflow.env''] \<and>
   is_initialized (snd (generate_next_message
      (User (UserMessage (Some ''I want to cancel order #W123''))) None
      (new_adapter fw_lib [] [] []))) \<and>
   fst (generate_next_message (User (UserMessage (Some ''I want to cancel order #W123''))) None
          (new_adapter fw_lib [Some (Exception ''cannot read env file'')] [] [])) =
     Inr (error_message (Exception ''cannot read env file''),
          Some \<lparr>message_history = [], awaiting_response = False, last_tool_calls = []\<rparr>) \<and>
   is_initialized (snd (generate_next_message
      (User (UserMessage (Some ''I want to cancel order #W123''))) None
      (new_adapter fw_lib [Some (Exception ''cannot read env file'')] [] []))) = False \<and>
   calls (snd (conversation
            [User (UserMessage (Some ''no longer needed'')), Tool (ToolMessage (Some ''done'')),
             User (UserMessage (Some ''thanks''))]
            None (running_adapter empty_session []))) =
     [Put (Some ''thanks''), Put (Some ''no longer needed'')] \<and>
   calls (snd (conversation
            [User (UserMessage (Some ''I want to cancel order #W123'')),
             User (UserMessage (Some ''no longer needed'')), Tool (ToolMessage (Some ''done'')),
             User (UserMessage (Some ''thanks''))]
            None (new_adapter fw_lib [] [] []))) =
     [Put (Some ''thanks''), Put (Some ''no longer needed''),
      StartWorkflow ''I want to cancel order #W123'', NewChatSession, ClearWorkflowStack,
      FwInit, ImportFastworkflow, LoadEnv ''examples/fastworkflow.passwords.env'',
      LoadEnv ''examples/fastworkflow.env'']"
proof -
  let ?n = "new_adapter fw_lib [] [] []"
  let ?e = "Exception ''cannot read env file''"
  let ?f = "new_adapter fw_lib [Some ?e] [] []"
  let ?um = "UserMessage (Some ''I want to cancel order #W123'')"
  let ?w = "running_adapter empty_session []"
  let ?ms = "[User (UserMessage (Some ''no longer needed'')), Tool (ToolMessage (Some ''done'')),
             User (UserMessage (Some ''thanks''))]"
  have u: "\<not> is_initialized ?n" and uf: "\<not> is_initialized ?f"
    by (simp_all add: new_adapter_def)
  have i: "fst (initialize_fastworkflow (user_content ?um) ?n) = Inr ()"
    by (simp add: new_adapter_def initialize_fastworkflow_def seq_def ext_call_def
        fault_point_def modify_def suppress_def return_def)
  have j: "fst (initialize_fastworkflow (user_content ?um) ?f) = Inl ?e"
    by (simp add: new_adapter_def initialize_fastworkflow_def seq_def ext_call_def
        fault_point_def modify_def suppress_def return_def)
  have r: "is_initialized ?w \<and> chat_session ?w \<noteq> None"
    by (simp add: running_adapter_def)
  from initialized_once [of ?n ?um fresh_state None ?e "User ?um" "[]"] u i
  have a: "is_initialized (snd (generate_next_message (User ?um) None ?n)) \<and>
      calls (snd (generate_next_message (User ?um) None ?n)) =
        (case user_content ?um of
           None \<Rightarrow> []
         | Some t \<Rightarrow> if t \<noteq> [] then [StartWorkflow t] else []) @
        [NewChatSession, ClearWorkflowStack, FwInit, ImportFastworkflow,
         LoadEnv ''examples/fastworkflow.passwords.env'',
         LoadEnv ''examples/fastworkflow.env''] @ calls ?n"
    by blast
  from initialized_once [of ?f ?um fresh_state None ?e "User ?um" "[]"] uf j
  have c: "fst (generate_next_message (User ?um) None ?f) =
        Inr (error_message ?e, Some (state_or_fresh None)) \<and>
      \<not> is_initialized (snd (generate_next_message (User ?um) None ?f))"
    by blast
  from initialized_once [of ?w ?um fresh_state None ?e "User ?um" ?ms] r
  have b: "calls (snd (conversation ?ms None ?w)) = forwarded ?ms @ calls ?w"
    by blast
  from initialized_once [of ?n ?um fresh_state None ?e "User ?um" ?ms] u i
  have d: "calls (snd (conversation (User ?um # ?ms) None ?n)) =
        forwarded ?ms @
        (case user_content ?um of
           None \<Rightarrow> []
         | Some t \<Rightarrow> if t \<noteq> [] then [StartWorkflow t] else []) @
        [NewChatSession, ClearWorkflowStack, FwInit, ImportFastworkflow,
         LoadEnv ''examples/fastworkflow.passwords.env'',
         LoadEnv ''examples/fastworkflow.env''] @ calls ?n"
    by blast
  have fwd: "forwarded ?ms = [Put (Some ''thanks''), Put (Some ''no longer needed'')]"
    by simp
  have e: "calls (snd (conversation (User ?um # ?ms) None ?n)) =
     [Put (Some ''thanks''), Put (Some ''no longer needed''),
      StartWorkflow ''I want to cancel order #W123'', NewChatSession, ClearWorkflowStack,
      FwInit, ImportFastworkflow, LoadEnv ''examples/fastworkflow.passwords.env'',
      LoadEnv ''examples/fastworkflow.env'']"
    unfolding d fwd by (simp add: new_adapter_def)
  from a b c have "calls (snd (generate_next_message (User ?um) None ?n)) =
     [StartWorkflow ''I want to cancel order #W123'', NewChatSession, ClearWorkflowStack,
      FwInit, ImportFastworkflow, LoadEnv ''examples/fastworkflow.passwords.env'',
      LoadEnv ''examples/fastworkflow.env''] \<and>
   is_initialized (snd (generate_next_message (User ?um) None ?n)) \<and>
   fst (generate_next_message (User ?um) None ?f) =
     Inr (error_message ?e,
          Some \<lparr>message_history = [], awaiting_response = False, last_tool_calls = []\<rparr>) \<and>
   is_initialized (snd (generate_next_message (User ?um) None ?f)) = False \<and>
   calls (snd (conversation ?ms None ?w)) =
     [Put (Some ''thanks''), Put (Some ''no longer needed'')]"
    by (simp add: new_adapter_def running_adapter_def state_or_fresh_def fresh_state_def)
  with e show ?thesis by (simp only: simp_thms)
qed

text \<open>
  C10. On the path through the \<^verbatim>\<open>except\<close> clause the error message is returned and not
  appended to the history, and the state returned is the value that the variable
  \<^verbatim>\<open>state\<close> holds when the body raises: the state that the call works on (the caller's,
  or the new one of lines 291-296 when the caller passed \<^verbatim>\<open>None\<close>), untouched when
  handing the message on raised, and with the inbound message appended when a drain
  raised. The setup of the state is the first statement of the \<^verbatim>\<open>try\<close> block and cannot
  raise, so no failure comes before it: the case of the last clause of the claim has no
  instance, and every failure returns a state that is set.
\<close>

theorem error_path_state:
  assumes "fst (generate_next_message_try message state w) = Inl (e, state')"
  shows "fst (generate_next_message message state w) = Inr (error_message e, state') \<and>
         state' \<noteq> None \<and>
         (state' = Some (state_or_fresh state) \<or>
          state' = Some (append_history (inbound message) (state_or_fresh state))) \<and>
         (fst (handle_message message (state_or_fresh state) w) = Inl e \<and>
            state' = Some (state_or_fresh state) \<or>
          fst (handle_message message (state_or_fresh state) w) =
            Inr (append_history (inbound message) (state_or_fresh state)) \<and>
            state' = Some (append_history (inbound message) (state_or_fresh state)))"
proof (cases "fst (handle_message message (state_or_fresh state) w)")
  case (Inl e1)
  with assms have "e1 = e" and "state' = Some (state_or_fresh state)"
    by (simp_all add: generate_next_message_try_fst)
  with Inl assms show ?thesis by (simp add: generate_next_message_fst)
next
  case (Inr state2)
  then have s2: "state2 = append_history (inbound message) (state_or_fresh state)"
    by (rule handle_message_result)
  from assms Inr have "state' = Some state2"
    by (auto simp add: generate_next_message_try_fst split: sum.splits)
  with Inr s2 assms show ?thesis by (simp add: generate_next_message_fst)
qed

theorem error_path_state_witness:
  "fst (generate_next_message (Tool (ToolMessage (Some ''order cancelled''))) None
          (running_adapter empty_session [Some (Exception ''queue closed'')])) =
     Inr (error_message (Exception ''queue closed''),
          Some \<lparr>message_history = [ToolMsg (ToolMessage (Some ''order cancelled''))],
                awaiting_response = False, last_tool_calls = []\<rparr>)"
proof -
  let ?w = "running_adapter empty_session [Some (Exception ''queue closed'')]"
  let ?m = "Tool (ToolMessage (Some ''order cancelled''))"
  have i: "is_initialized ?w" and s: "chat_session ?w \<noteq> None"
    by (simp_all add: running_adapter_def)
  have t: "fst (generate_next_message_try ?m None ?w) =
             Inl (Exception ''queue closed'',
                  Some \<lparr>message_history = [ToolMsg (ToolMessage (Some ''order cancelled''))],
                        awaiting_response = False, last_tool_calls = []\<rparr>)"
    using first_fault_raises [OF i s, of "Exception ''queue closed''" ?m None]
    by (simp add: next_fault_def running_adapter_def append_history_def state_or_fresh_def
        fresh_state_def)
  from error_path_state [OF t] show ?thesis by simp
qed

end
